theory Spec2Isabelle
  imports Complex_Main "HOL-Library.Word"
begin

unbundle bit_operations_syntax

section \<open>Tensors\<close>

text \<open>
  The quantization engine of \<^verbatim>\<open>modules/model_quant_nncf.py\<close> works on torch tensors.
  A tensor is modelled by its dtype (the constructor), its shape and its elements in
  row-major order. The elements of a floating-point tensor are real numbers: the
  arithmetic of the model is exact, so every statement below about scales and
  dequantized values is a statement about the formulas the code evaluates, not about
  the rounding of each float32 operation. Integer tensors carry machine words, read
  as two's complement for the signed dtypes.
\<close>

datatype error = ValueError string | RuntimeError string | IndexError string | AttributeError string

fun is_value_error :: "error \<Rightarrow> bool" where
  "is_value_error (ValueError m) = True"
| "is_value_error e = False"

datatype tensor =
    TFloat "nat list" "real list"
  | TInt32 "nat list" "32 word list"
  | TInt8 "nat list" "8 word list"
  | TUInt8 "nat list" "8 word list"

fun tshape :: "tensor \<Rightarrow> nat list" where
  "tshape (TFloat s xs) = s"
| "tshape (TInt32 s ws) = s"
| "tshape (TInt8 s ws) = s"
| "tshape (TUInt8 s ws) = s"

text \<open>The numeric value of every element, whatever the dtype.\<close>

fun tvals :: "tensor \<Rightarrow> real list" where
  "tvals (TFloat s xs) = xs"
| "tvals (TInt32 s ws) = map (\<lambda>w. real_of_int (sint w)) ws"
| "tvals (TInt8 s ws) = map (\<lambda>w. real_of_int (sint w)) ws"
| "tvals (TUInt8 s ws) = map (\<lambda>w. real_of_int (uint w)) ws"

fun is_floating_point :: "tensor \<Rightarrow> bool" where
  "is_floating_point (TFloat s xs) = True"
| "is_floating_point t = False"

text \<open>\<^verbatim>\<open>tensor.reshape(shape)\<close> raises unless the number of elements is kept.\<close>

fun with_shape :: "nat list \<Rightarrow> tensor \<Rightarrow> tensor" where
  "with_shape s (TFloat s0 xs) = TFloat s xs"
| "with_shape s (TInt32 s0 ws) = TInt32 s ws"
| "with_shape s (TInt8 s0 ws) = TInt8 s ws"
| "with_shape s (TUInt8 s0 ws) = TUInt8 s ws"

definition reshape :: "nat list \<Rightarrow> tensor \<Rightarrow> error + tensor" where
  "reshape s t =
     (if prod_list s = prod_list (tshape t) then Inr (with_shape s t)
      else Inl (RuntimeError ''shape is invalid for input''))"

text \<open>
  Conversion of a float to an integer dtype truncates towards zero; conversion between
  integer dtypes keeps the low bits. Every float converted to an 8-bit dtype by the
  code has been range-checked or clipped before.
\<close>

definition trunc :: "real \<Rightarrow> int" where
  "trunc x = (if 0 \<le> x then \<lfloor>x\<rfloor> else \<lceil>x\<rceil>)"

fun to_uint8 :: "tensor \<Rightarrow> tensor" where
  "to_uint8 (TFloat s xs) = TUInt8 s (map (\<lambda>x. word_of_int (trunc x)) xs)"
| "to_uint8 (TInt32 s ws) = TUInt8 s (map ucast ws)"
| "to_uint8 (TInt8 s ws) = TUInt8 s ws"
| "to_uint8 (TUInt8 s ws) = TUInt8 s ws"

fun to_int8 :: "tensor \<Rightarrow> tensor" where
  "to_int8 (TFloat s xs) = TInt8 s (map (\<lambda>x. word_of_int (trunc x)) xs)"
| "to_int8 (TInt32 s ws) = TInt8 s (map ucast ws)"
| "to_int8 (TInt8 s ws) = TInt8 s ws"
| "to_int8 (TUInt8 s ws) = TInt8 s ws"

text \<open>\<^verbatim>\<open>torch.any((weight < lo) | (weight > hi))\<close>\<close>

definition any_outside :: "real \<Rightarrow> real \<Rightarrow> tensor \<Rightarrow> bool" where
  "any_outside lo hi weight = list_ex (\<lambda>v. v < lo \<or> v > hi) (tvals weight)"

section \<open>Bit packer and unpacker\<close>

text \<open>
  \<^verbatim>\<open>pack_uint4\<close>: after the dtype check, \<^verbatim>\<open>reshape(-1, 2)\<close> makes rows of two
  consecutive values; it raises when the number of elements is odd, and when it is
  zero (the row count cannot be inferred). Column 0 is masked with 15, column 1 is
  shifted left by 4 inside the byte, and the two are combined with OR. The result has
  shape \<open>(n div 2, 1)\<close>.
\<close>

fun pack_pairs :: "8 word list \<Rightarrow> 8 word list" where
  "pack_pairs (a # b # rest) = ((a AND 15) OR push_bit 4 b) # pack_pairs rest"
| "pack_pairs rest = []"

fun pack_uint4 :: "tensor \<Rightarrow> error + tensor" where
  "pack_uint4 (TUInt8 s ws) =
     (if length ws = 0 \<or> odd (length ws)
      then Inl (RuntimeError ''shape [-1, 2] is invalid for input'')
      else Inr (TUInt8 [length ws div 2, 1] (pack_pairs ws)))"
| "pack_uint4 t = Inl (RuntimeError ''Invalid tensor dtype. torch.uint8 type is supported.'')"

text \<open>\<^verbatim>\<open>pack_int4\<close>: the bias 8 is added in int8, then the bytes are read as uint8.\<close>

fun pack_int4 :: "tensor \<Rightarrow> error + tensor" where
  "pack_int4 (TInt8 s ws) = pack_uint4 (to_uint8 (TInt8 s (map (\<lambda>w. w + 8) ws)))"
| "pack_int4 t = Inl (RuntimeError ''Invalid tensor dtype. torch.int8 type is supported.'')"

text \<open>
  \<^verbatim>\<open>unpack_uint4\<close>: \<^verbatim>\<open>torch.stack((p & 15, p >> 4), dim=-1)\<close> puts the low nibble and
  the shifted byte of every packed element side by side, on a new last axis. The
  right shift is logical on uint8 and arithmetic on the signed dtypes; the bitwise
  operators are not defined on floats.
\<close>

fun unpack_uint4 :: "tensor \<Rightarrow> error + tensor" where
  "unpack_uint4 (TUInt8 s ws) =
     Inr (TUInt8 (s @ [2]) (concat (map (\<lambda>p. [p AND 15, drop_bit 4 p]) ws)))"
| "unpack_uint4 (TInt8 s ws) =
     Inr (TInt8 (s @ [2]) (concat (map (\<lambda>p. [p AND 15, signed_drop_bit 4 p]) ws)))"
| "unpack_uint4 (TInt32 s ws) =
     Inr (TInt32 (s @ [2]) (concat (map (\<lambda>p. [p AND 15, signed_drop_bit 4 p]) ws)))"
| "unpack_uint4 (TFloat s xs) = Inl (RuntimeError ''bitwise_and not implemented for Float'')"

text \<open>\<^verbatim>\<open>unpack_int4\<close>: unpack, read as int8, subtract the bias.\<close>

fun sub8 :: "tensor \<Rightarrow> tensor" where
  "sub8 (TInt8 s ws) = TInt8 s (map (\<lambda>w. w - 8) ws)"
| "sub8 (TUInt8 s ws) = TUInt8 s (map (\<lambda>w. w - 8) ws)"
| "sub8 (TInt32 s ws) = TInt32 s (map (\<lambda>w. w - 8) ws)"
| "sub8 (TFloat s xs) = TFloat s (map (\<lambda>x. x - 8) xs)"

definition unpack_int4 :: "tensor \<Rightarrow> error + tensor" where
  "unpack_int4 packed_tensor =
     (case unpack_uint4 packed_tensor of
        Inl e \<Rightarrow> Inl e
      | Inr t \<Rightarrow> Inr (sub8 (to_int8 t)))"

section \<open>Indices, broadcasting and reductions\<close>

text \<open>Exceptions propagate: the first error ends the computation.\<close>

definition ebind :: "error + 'a \<Rightarrow> ('a \<Rightarrow> error + 'b) \<Rightarrow> error + 'b" where
  "ebind m f = (case m of Inl e \<Rightarrow> Inl e | Inr x \<Rightarrow> f x)"

text \<open>Row-major layout: the multi-index of a flat position, and back.\<close>

fun unravel :: "nat list \<Rightarrow> nat \<Rightarrow> nat list" where
  "unravel [] i = []"
| "unravel (d # ds) i = (i div prod_list ds) # unravel ds (i mod prod_list ds)"

fun ravel :: "nat list \<Rightarrow> nat list \<Rightarrow> nat" where
  "ravel (d # ds) (x # xs) = x * prod_list ds + ravel ds xs"
| "ravel ds xs = 0"

text \<open>
  Broadcasting of two operands: shapes are aligned on the right, the shorter one is
  padded with extents 1, and an extent 1 stretches to the other operand's extent; any
  other mismatch raises. An operand is read at the result's index with every stretched
  coordinate set to 0.
\<close>

definition pad_shape :: "nat \<Rightarrow> nat list \<Rightarrow> nat list" where
  "pad_shape n s = replicate (n - length s) 1 @ s"

fun merge_shapes :: "nat list \<Rightarrow> nat list \<Rightarrow> nat list option" where
  "merge_shapes [] [] = Some []"
| "merge_shapes (a # as) (b # bs) =
     (if a = b \<or> b = 1 then map_option (Cons a) (merge_shapes as bs)
      else if a = 1 then map_option (Cons b) (merge_shapes as bs)
      else None)"
| "merge_shapes as bs = None"

definition broadcast_shapes :: "nat list \<Rightarrow> nat list \<Rightarrow> nat list option" where
  "broadcast_shapes sa sb =
     (let n = max (length sa) (length sb) in merge_shapes (pad_shape n sa) (pad_shape n sb))"

definition bindex :: "nat list \<Rightarrow> nat list \<Rightarrow> nat \<Rightarrow> nat" where
  "bindex rs s i =
     (let p = pad_shape (length rs) s
      in ravel p (map2 (\<lambda>d x. if d = 1 then 0 else x) p (unravel rs i)))"

definition broadcast_op :: "(real \<Rightarrow> real \<Rightarrow> real) \<Rightarrow> tensor \<Rightarrow> tensor \<Rightarrow> error + tensor" where
  "broadcast_op f a b =
     (case broadcast_shapes (tshape a) (tshape b) of
        None \<Rightarrow> Inl (RuntimeError ''The size of tensor a must match the size of tensor b'')
      | Some rs \<Rightarrow>
          Inr (TFloat rs (map (\<lambda>i. f (tvals a ! bindex rs (tshape a) i)
                                      (tvals b ! bindex rs (tshape b) i))
                              [0..<prod_list rs])))"

text \<open>An elementwise operation on one tensor, with a float result.\<close>

definition tmap :: "(real \<Rightarrow> real) \<Rightarrow> tensor \<Rightarrow> tensor" where
  "tmap f t = TFloat (tshape t) (map f (tvals t))"

text \<open>
  \<^verbatim>\<open>torch.amin(t, dim=axes, keepdims=True)\<close> and \<^verbatim>\<open>torch.amax\<close>: every reduced axis
  keeps extent 1 in the result; the cell of the result at a multi-index collects the
  elements of \<open>t\<close> that have this multi-index once their coordinates on the reduced axes
  are set to 0. A reduced axis of extent 0 raises.
\<close>

fun keepdims_shape :: "nat list \<Rightarrow> nat \<Rightarrow> nat list \<Rightarrow> nat list" where
  "keepdims_shape axes k [] = []"
| "keepdims_shape axes k (d # ds) =
     (if k \<in> set axes then 1 else d) # keepdims_shape axes (Suc k) ds"

fun zero_axes :: "nat list \<Rightarrow> nat \<Rightarrow> nat list \<Rightarrow> nat list" where
  "zero_axes axes k [] = []"
| "zero_axes axes k (x # xs) =
     (if k \<in> set axes then 0 else x) # zero_axes axes (Suc k) xs"

fun min_list_real :: "real list \<Rightarrow> real" where
  "min_list_real [] = 0"
| "min_list_real (x # xs) = fold min xs x"

fun max_list_real :: "real list \<Rightarrow> real" where
  "max_list_real [] = 0"
| "max_list_real (x # xs) = fold max xs x"

definition reduce_keepdims :: "(real list \<Rightarrow> real) \<Rightarrow> tensor \<Rightarrow> nat list \<Rightarrow> error + tensor" where
  "reduce_keepdims g t axes =
     (let s = tshape t; ks = keepdims_shape axes 0 s
      in if list_ex (\<lambda>a. a < length s \<and> s ! a = 0) axes
         then Inl (IndexError ''Expected reduction dim to have non-zero size'')
         else Inr (TFloat ks
                (map (\<lambda>k. g (map (\<lambda>j. tvals t ! j)
                                 (filter (\<lambda>j. zero_axes axes 0 (unravel s j) = unravel ks k)
                                         [0..<prod_list s])))
                     [0..<prod_list ks])))"

definition amin :: "tensor \<Rightarrow> nat list \<Rightarrow> error + tensor" where
  "amin t axes = reduce_keepdims min_list_real t axes"

definition amax :: "tensor \<Rightarrow> nat list \<Rightarrow> error + tensor" where
  "amax t axes = reduce_keepdims max_list_real t axes"

text \<open>\<^verbatim>\<open>torch.round\<close> rounds half-way cases to the even integer.\<close>

definition round_half_even :: "real \<Rightarrow> int" where
  "round_half_even x =
     (let f = \<lfloor>x\<rfloor>; d = x - of_int f
      in if d < 1 / 2 then f else if 1 / 2 < d then f + 1 else if even f then f else f + 1)"

definition clip :: "real \<Rightarrow> real \<Rightarrow> real \<Rightarrow> real" where
  "clip lo hi x = min (max x lo) hi"

text \<open>
  \<^verbatim>\<open>zero_point.to(dtype=torch.int32)\<close> converts a float to int32 before it is clipped.
  A value that fits is converted exactly. For a value that does not fit the result
  depends on the device the tensor lives on, so it is a parameter \<open>oor\<close> of the model.
\<close>

definition float_to_int32 :: "(real \<Rightarrow> 32 word) \<Rightarrow> real \<Rightarrow> 32 word" where
  "float_to_int32 oor x =
     (if - (2 ^ 31) \<le> trunc x \<and> trunc x < 2 ^ 31 then word_of_int (trunc x) else oor x)"

definition clip_int32 :: "int \<Rightarrow> int \<Rightarrow> 32 word \<Rightarrow> 32 word" where
  "clip_int32 lo hi w = word_of_int (min (max (sint w) lo) hi)"

fun to_int32 :: "(real \<Rightarrow> 32 word) \<Rightarrow> tensor \<Rightarrow> tensor" where
  "to_int32 oor (TFloat s xs) = TInt32 s (map (float_to_int32 oor) xs)"
| "to_int32 oor (TInt32 s ws) = TInt32 s ws"
| "to_int32 oor (TInt8 s ws) = TInt32 s (map scast ws)"
| "to_int32 oor (TUInt8 s ws) = TInt32 s (map ucast ws)"

fun clip_tensor :: "tensor \<Rightarrow> int \<Rightarrow> int \<Rightarrow> tensor" where
  "clip_tensor (TInt32 s ws) lo hi = TInt32 s (map (clip_int32 lo hi) ws)"
| "clip_tensor t lo hi = tmap (clip (real_of_int lo) (real_of_int hi)) t"

definition to_float32 :: "tensor \<Rightarrow> tensor" where
  "to_float32 t = TFloat (tshape t) (tvals t)"

section \<open>Quantization parameters\<close>

text \<open>\<^verbatim>\<open>torch.finfo(torch.float32).eps\<close>\<close>

definition eps :: real where
  "eps = 1 / 2 ^ 23"

text \<open>
  Lines 68 to 92 of \<^verbatim>\<open>nncf_compress_layer\<close>: the scale, and in asymmetric mode the
  zero point, of every channel, from the minimum and the maximum over the reduction
  axes. Both tensors have the shape that \<^verbatim>\<open>keepdims=True\<close> gives.
\<close>

definition quant_params ::
  "(real \<Rightarrow> 32 word) \<Rightarrow> nat \<Rightarrow> bool \<Rightarrow> tensor \<Rightarrow> nat list \<Rightarrow> error + tensor \<times> tensor option" where
  "quant_params oor num_bits is_asym_mode w reduction_axes =
     (if is_asym_mode then
        (let level_low = (0 :: int); level_high = (2 :: int) ^ num_bits - 1
         in ebind (amin w reduction_axes) (\<lambda>min_values.
            ebind (amax w reduction_axes) (\<lambda>max_values.
            let levels = level_high - level_low + 1
            in ebind (broadcast_op (-) max_values min_values) (\<lambda>d.
               let scale = tmap (\<lambda>x. x / real_of_int (levels - 1)) d;
                   scale = tmap (\<lambda>x. if \<bar>x\<bar> < eps then eps else x) scale
               in ebind (broadcast_op (/) min_values scale) (\<lambda>q.
                  let zero_point =
                        tmap (\<lambda>x. real_of_int level_low - real_of_int (round_half_even x)) q;
                      zero_point = clip_tensor (to_int32 oor zero_point) level_low level_high
                  in Inr (scale, Some zero_point))))))
      else
        (let factor = (2 :: int) ^ (num_bits - 1)
         in ebind (amin w reduction_axes) (\<lambda>m.
            let w_abs_min = tmap abs m
            in ebind (amax w reduction_axes) (\<lambda>w_max.
               ebind (broadcast_op (\<lambda>a b. if a \<ge> b then a else - b) w_abs_min w_max) (\<lambda>scale.
               let scale = tmap (\<lambda>x. x / real_of_int factor) scale;
                   scale = tmap (\<lambda>x. if \<bar>x\<bar> < eps then eps else x) scale
               in Inr (scale, None))))))"

text \<open>
  Lines 94 to 103: the weight is divided by the scale, shifted by the zero point (an
  in-place addition, which must keep the shape), rounded, clipped to the levels of the
  mode and converted to uint8 or int8.
\<close>

definition add_inplace :: "tensor \<Rightarrow> tensor \<Rightarrow> error + tensor" where
  "add_inplace a b =
     ebind (broadcast_op (+) a b) (\<lambda>r.
       if tshape r = tshape a then Inr r
       else Inl (RuntimeError ''output shape does not match the broadcast shape''))"

definition compress_weight ::
  "nat \<Rightarrow> bool \<Rightarrow> tensor \<Rightarrow> tensor \<Rightarrow> tensor option \<Rightarrow> error + tensor" where
  "compress_weight num_bits is_asym_mode w scale zero_point =
     (let level_low = (if is_asym_mode then 0 else - ((2 :: int) ^ (num_bits - 1)));
          level_high = (if is_asym_mode then 2 ^ num_bits - 1 else (2 :: int) ^ (num_bits - 1) - 1)
      in ebind (broadcast_op (/) w scale) (\<lambda>compressed_weight.
         ebind (case zero_point of
                  None \<Rightarrow> Inr compressed_weight
                | Some zp \<Rightarrow> add_inplace compressed_weight (to_float32 zp)) (\<lambda>compressed_weight.
         let compressed_weight = tmap (\<lambda>x. real_of_int (round_half_even x)) compressed_weight;
             compressed_weight = clip_tensor compressed_weight level_low level_high
         in Inr (if is_asym_mode then to_uint8 compressed_weight
                 else to_int8 compressed_weight))))"

section \<open>Decompressors\<close>

text \<open>
  The four decompressor classes. The fields are the scale, the packed zero point and
  the shapes recorded at construction. The result dtype is left out: with exact
  arithmetic the final cast to the working float dtype changes nothing.
\<close>

datatype decompressor =
    INT8AsymmetricWeightsDecompressor tensor tensor
  | INT8SymmetricWeightsDecompressor tensor
  | INT4AsymmetricWeightsDecompressor tensor tensor "nat list" "nat list" "nat list option"
  | INT4SymmetricWeightsDecompressor tensor "nat list" "nat list option"

definition pack_weight_INT8Asymmetric :: "tensor \<Rightarrow> error + tensor" where
  "pack_weight_INT8Asymmetric weight =
     (if is_floating_point weight
      then Inl (ValueError ''Invalid weight dtype. Integer types are supported.'')
      else if any_outside 0 255 weight
      then Inl (ValueError ''Weight values are not in [0, 255].'')
      else Inr (to_uint8 weight))"

definition pack_weight_INT8Symmetric :: "tensor \<Rightarrow> error + tensor" where
  "pack_weight_INT8Symmetric weight =
     (if any_outside (- 128) 127 weight
      then Inl (ValueError ''Weight values are not in [-128, 127].'')
      else Inr (to_int8 weight))"

definition pack_weight_INT4Asymmetric :: "tensor \<Rightarrow> error + tensor" where
  "pack_weight_INT4Asymmetric weight =
     (if any_outside 0 15 weight
      then Inl (ValueError ''Weight values are not in [0, 15].'')
      else pack_uint4 (to_uint8 weight))"

definition pack_weight_INT4Symmetric :: "tensor \<Rightarrow> error + tensor" where
  "pack_weight_INT4Symmetric weight =
     (if is_floating_point weight
      then Inl (ValueError ''Invalid weight dtype. Integer types are supported.'')
      else if any_outside (- 8) 7 weight
      then Inl (ValueError ''Tensor values are not in [-8, 7].'')
      else pack_int4 (to_int8 weight))"

fun pack_weight :: "decompressor \<Rightarrow> tensor \<Rightarrow> error + tensor" where
  "pack_weight (INT8AsymmetricWeightsDecompressor sc zp) weight = pack_weight_INT8Asymmetric weight"
| "pack_weight (INT8SymmetricWeightsDecompressor sc) weight = pack_weight_INT8Symmetric weight"
| "pack_weight (INT4AsymmetricWeightsDecompressor sc zp zs cs rs) weight =
     pack_weight_INT4Asymmetric weight"
| "pack_weight (INT4SymmetricWeightsDecompressor sc cs rs) weight = pack_weight_INT4Symmetric weight"

text \<open>The constructors of the asymmetric variants pack the zero point they are given.\<close>

definition new_INT8Asymmetric :: "tensor \<Rightarrow> tensor \<Rightarrow> error + decompressor" where
  "new_INT8Asymmetric scale zero_point =
     ebind (pack_weight_INT8Asymmetric zero_point) (\<lambda>zp.
       Inr (INT8AsymmetricWeightsDecompressor scale zp))"

definition new_INT4Asymmetric ::
  "tensor \<Rightarrow> tensor \<Rightarrow> nat list \<Rightarrow> nat list option \<Rightarrow> error + decompressor" where
  "new_INT4Asymmetric scale zero_point compressed_weight_shape result_shape =
     ebind (pack_weight_INT4Asymmetric zero_point) (\<lambda>zp.
       Inr (INT4AsymmetricWeightsDecompressor scale zp (tshape zero_point)
              compressed_weight_shape result_shape))"





section \<open>Compressing a layer\<close>

definition linear_types :: "string list" where
  "linear_types = [''NNCFLinear'', ''Linear'']"

definition conv_types :: "string list" where
  "conv_types = [''NNCFConv1d'', ''NNCFConv2d'', ''NNCFConv3d'', ''Conv1d'', ''Conv2d'', ''Conv3d'']"

definition conv_transpose_types :: "string list" where
  "conv_transpose_types =
     [''NNCFConvTranspose1d'', ''NNCFConvTranspose2d'', ''NNCFConvTranspose3d'',
      ''ConvTranspose1d'', ''ConvTranspose2d'', ''ConvTranspose3d'']"

definition allowed_types :: "string list" where
  "allowed_types = linear_types @ conv_types @ conv_transpose_types"

text \<open>
  A layer, as far as the quantization pass reads and writes it: the name of its class,
  its weight, the \<^verbatim>\<open>requires_grad\<close> flag of the weight and the operations registered
  to run before its forward computation.
\<close>

record layer =
  class_name :: string
  weight :: tensor
  requires_grad :: bool
  pre_ops :: "decompressor list"

text \<open>
  Lines 51 to 60 of \<^verbatim>\<open>nncf_compress_layer\<close>. The result \<open>None\<close> stands for the early
  \<^verbatim>\<open>return layer\<close>. The test for the transposed convolutions is a second \<^verbatim>\<open>if\<close>, not
  an \<^verbatim>\<open>elif\<close>: the axes assigned in the first \<^verbatim>\<open>if\<close> are assigned again by one of
  the branches of the second.
\<close>

definition select_reduction_axes :: "string \<Rightarrow> nat \<Rightarrow> bool \<Rightarrow> bool \<Rightarrow> nat list option" where
  "select_reduction_axes name ndim is_asym_mode quant_conv =
     (if name \<in> set conv_types \<and> (is_asym_mode \<or> \<not> quant_conv) then None
      else
        let reduction_axes =
              (if name \<in> set conv_types then filter (\<lambda>i. i \<noteq> 0) [0..<ndim] else [])
        in if name \<in> set conv_transpose_types
           then (if is_asym_mode \<or> \<not> quant_conv then None
                 else let reduction_axes = filter (\<lambda>i. i \<noteq> 1) [0..<ndim]
                      in Some reduction_axes)
           else let reduction_axes = [ndim - 1] in Some reduction_axes)"

text \<open>Lines 105 to 132: the decompressor for the bit width and the mode.\<close>

definition make_decompressor ::
  "nat \<Rightarrow> bool \<Rightarrow> tensor \<Rightarrow> tensor option \<Rightarrow> nat list \<Rightarrow> nat list \<Rightarrow> error + decompressor" where
  "make_decompressor num_bits is_asym_mode scale zero_point compressed_weight_shape weight_shape =
     (if num_bits = 4 then
        (if is_asym_mode then
           (case zero_point of
              None \<Rightarrow> Inl (RuntimeError ''NoneType object has no attribute data'')
            | Some zp \<Rightarrow> new_INT4Asymmetric scale zp compressed_weight_shape (Some weight_shape))
         else Inr (INT4SymmetricWeightsDecompressor scale compressed_weight_shape (Some weight_shape)))
      else
        (if is_asym_mode then
           (case zero_point of
              None \<Rightarrow> Inl (RuntimeError ''NoneType object has no attribute data'')
            | Some zp \<Rightarrow> new_INT8Asymmetric scale zp)
         else Inr (INT8SymmetricWeightsDecompressor scale)))"

text \<open>
  \<^verbatim>\<open>nncf_compress_layer(layer, num_bits, is_asym_mode, quant_conv=False)\<close>. The
  arguments \<^verbatim>\<open>torch_dtype\<close> and \<^verbatim>\<open>param_name\<close> and the device of the tensors do not
  enter the values computed. The layer is one that has
  \<^verbatim>\<open>register_pre_forward_operation\<close>, which appends to \<open>pre_ops\<close>.
\<close>

definition nncf_compress_layer ::
  "(real \<Rightarrow> 32 word) \<Rightarrow> layer \<Rightarrow> nat \<Rightarrow> bool \<Rightarrow> bool \<Rightarrow> error + layer" where
  "nncf_compress_layer oor layer num_bits is_asym_mode quant_conv =
     (if class_name layer \<in> set allowed_types then
        (case select_reduction_axes (class_name layer) (length (tshape (weight layer)))
                is_asym_mode quant_conv of
           None \<Rightarrow> Inr layer
         | Some reduction_axes \<Rightarrow>
             let w = to_float32 (weight layer)
             in ebind (quant_params oor num_bits is_asym_mode w reduction_axes) (\<lambda>(scale, zero_point).
                ebind (compress_weight num_bits is_asym_mode w scale zero_point) (\<lambda>compressed_weight.
                ebind (make_decompressor num_bits is_asym_mode scale zero_point
                         (tshape compressed_weight) (tshape w)) (\<lambda>decompressor.
                ebind (pack_weight decompressor compressed_weight) (\<lambda>compressed_weight.
                Inr (layer\<lparr>weight := compressed_weight, requires_grad := False,
                           pre_ops := pre_ops layer @ [decompressor]\<rparr>))))))
      else Inr layer)"

section \<open>The quantizer's loading path\<close>


record quantization_config =
  num_bits :: nat
  is_asym_mode :: bool



text \<open>
  The reduction axes as the specification words them, for comparison with
  \<open>select_reduction_axes\<close>: a linear layer reduces over all axes except the last, a
  convolution over all axes except axis 0, a transposed convolution over all axes
  except axis 1.
\<close>

datatype topology = Linear | Convolution | TransposedConvolution

fun spec_reduction_axes :: "topology \<Rightarrow> nat \<Rightarrow> nat list" where
  "spec_reduction_axes Linear ndim = filter (\<lambda>i. i \<noteq> ndim - 1) [0..<ndim]"
| "spec_reduction_axes Convolution ndim = filter (\<lambda>i. i \<noteq> 0) [0..<ndim]"
| "spec_reduction_axes TransposedConvolution ndim = filter (\<lambda>i. i \<noteq> 1) [0..<ndim]"

text \<open>An extent of the second shape is that of the first, or 1.\<close>

definition stretches :: "nat list \<Rightarrow> nat list \<Rightarrow> bool" where
  "stretches ks s = list_all2 (\<lambda>k d. k = d \<or> k = 1) ks s"

text \<open>
  The parameters of one channel as the specification words them, from the minimum
  \<open>mn\<close> and the maximum \<open>mx\<close> of the channel.
\<close>

definition spec_asym_scale :: "nat \<Rightarrow> real \<Rightarrow> real \<Rightarrow> real" where
  "spec_asym_scale nb mn mx =
     (let levels = (2 :: real) ^ nb; s = (mx - mn) / (levels - 1)
      in if \<bar>s\<bar> < eps then eps else s)"


definition spec_sym_scale :: "nat \<Rightarrow> real \<Rightarrow> real \<Rightarrow> real" where
  "spec_sym_scale nb mn mx =
     (let s = (if \<bar>mn\<bar> \<ge> mx then \<bar>mn\<bar> else - mx) / 2 ^ (nb - 1)
      in if \<bar>s\<bar> < eps then eps else s)"

text \<open>
  Lines 98 to 103 for one element: the integer code of a weight \<open>x\<close> with scale \<open>sc\<close>
  and zero point \<open>z\<close> (0 in symmetric mode), before and after the clipping to the
  levels of the mode.
\<close>

definition level_low :: "nat \<Rightarrow> bool \<Rightarrow> int" where
  "level_low nb am = (if am then 0 else - (2 ^ (nb - 1)))"

definition level_high :: "nat \<Rightarrow> bool \<Rightarrow> int" where
  "level_high nb am = (if am then 2 ^ nb - 1 else 2 ^ (nb - 1) - 1)"

definition rounded_code :: "real \<Rightarrow> real \<Rightarrow> real \<Rightarrow> int" where
  "rounded_code x sc z = round_half_even (x / sc + z)"

definition quantized_code :: "nat \<Rightarrow> bool \<Rightarrow> real \<Rightarrow> real \<Rightarrow> real \<Rightarrow> int" where
  "quantized_code nb am x sc z =
     min (max (rounded_code x sc z) (level_low nb am)) (level_high nb am)"



section \<open>Layers that are passed through\<close>

lemma ebind_Inr [simp]: "ebind (Inr x) f = f x"
  by (simp add: ebind_def)

lemma ebind_Inl [simp]: "ebind (Inl e) f = Inl e"
  by (simp add: ebind_def)

lemma ebind_eq_Inr: "ebind m f = Inr y \<longleftrightarrow> (\<exists>x. m = Inr x \<and> f x = Inr y)"
  by (cases m) simp_all

text \<open>
  Claim C8. A convolution or transposed-convolution layer handed to
  \<^verbatim>\<open>nncf_compress_layer\<close> in asymmetric mode comes back as it went in: the same weight,
  the same registered operations, and a normal return rather than an exception,
  whatever the bit width and the \<^verbatim>\<open>quant_conv\<close> flag.
\<close>

theorem conv_asym_returned_unmodified:
  "class_name layer \<in> set conv_types \<union> set conv_transpose_types \<Longrightarrow>
   nncf_compress_layer oor layer nb True qc = Inr layer"
  by (auto simp: nncf_compress_layer_def select_reduction_axes_def)

theorem conv_asym_returned_unmodified_witness:
  "class_name \<lparr>class_name = ''NNCFConv2d'', weight = TFloat [1, 1, 1, 2] [- 1, 1],
                requires_grad = True, pre_ops = []\<rparr>
      \<in> set conv_types \<union> set conv_transpose_types \<and>
   nncf_compress_layer (\<lambda>x. 0)
     \<lparr>class_name = ''NNCFConv2d'', weight = TFloat [1, 1, 1, 2] [- 1, 1],
      requires_grad = True, pre_ops = []\<rparr> 8 True True
   = Inr \<lparr>class_name = ''NNCFConv2d'', weight = TFloat [1, 1, 1, 2] [- 1, 1],
           requires_grad = True, pre_ops = []\<rparr>"
proof -
  have h: "class_name \<lparr>class_name = ''NNCFConv2d'', weight = TFloat [1, 1, 1, 2] [- 1, 1],
                        requires_grad = True, pre_ops = []\<rparr>
      \<in> set conv_types \<union> set conv_transpose_types"
    by (simp add: conv_types_def)
  show ?thesis using h conv_asym_returned_unmodified [OF h] by simp
qed





section \<open>Pack/unpack identity\<close>

lemma fifteen_mask: "(15 :: 8 word) = mask 4"
  by (simp add: mask_eq_exp_minus_1)

lemma le15_and: "a \<le> 15 \<Longrightarrow> a AND 15 = (a :: 8 word)"
proof -
  assume "a \<le> 15"
  then have "a < 2 ^ 4" by (simp add: word_le_nat_alt word_less_nat_alt)
  then show ?thesis unfolding fifteen_mask by (rule less_mask_eq)
qed

lemma nibble_low: "a \<le> 15 \<Longrightarrow> ((a AND 15) OR push_bit 4 b) AND 15 = (a :: 8 word)"
proof -
  assume a: "a \<le> 15"
  have "((a AND mask 4) OR push_bit 4 b) AND mask 4 = a AND mask 4"
    by (rule bit_word_eqI) (auto simp: bit_simps)
  then show ?thesis using le15_and [OF a] by (simp add: fifteen_mask)
qed

lemma nibble_high: "b \<le> 15 \<Longrightarrow> drop_bit 4 ((a AND 15) OR push_bit 4 b) = (b :: 8 word)"
proof -
  assume b: "b \<le> 15"
  have "drop_bit 4 ((a AND mask 4) OR push_bit 4 b) = b AND mask 4"
    by (rule bit_word_eqI) (auto simp: bit_simps)
  then show ?thesis using le15_and [OF b] by (simp add: fifteen_mask)
qed

lemma unpack_pack_pairs:
  "even (length ws) \<Longrightarrow> \<forall>w\<in>set ws. w \<le> 15 \<Longrightarrow>
   concat (map (\<lambda>p. [p AND 15, drop_bit 4 p]) (pack_pairs ws)) = ws"
proof (induction ws rule: pack_pairs.induct)
  case (1 a b rest)
  then have a: "a \<le> 15" and b: "b \<le> 15"
    and r: "concat (map (\<lambda>p. [p AND 15, drop_bit 4 p]) (pack_pairs rest)) = rest"
    by simp_all
  show ?case
    by (simp only: pack_pairs.simps list.map concat.simps append_Cons append_Nil
          nibble_low [OF a] nibble_high [OF b] r)
qed simp_all

lemma pack_pairs_nth:
  "k < length ws div 2 \<Longrightarrow> pack_pairs ws ! k = ((ws ! (2 * k)) AND 15) OR push_bit 4 (ws ! (2 * k + 1))"
proof (induction ws arbitrary: k rule: pack_pairs.induct)
  case (1 a b rest)
  then show ?case by (cases k) simp_all
qed simp_all

lemma bias_le15: "- 8 \<le> sint (w :: 8 word) \<Longrightarrow> sint w \<le> 7 \<Longrightarrow> w + 8 \<le> 15"
proof -
  assume a: "- 8 \<le> sint w" "sint w \<le> 7"
  have "w + 8 = (word_of_int (sint w + 8) :: 8 word)" by simp
  then have "uint (w + 8) = uint (word_of_int (sint w + 8) :: 8 word)" by simp
  also have "\<dots> = (sint w + 8) mod 256"
    by (simp only: uint_word_of_int) simp
  also have "\<dots> = sint w + 8" using a by simp
  finally have "uint (w + 8) \<le> 15" using a by simp
  then show ?thesis by (simp add: word_le_def)
qed

text \<open>
  Claim C3. For an even, positive number of values in the legal range of the 4-bit
  format (0 to 15 unsigned, -8 to 7 signed, biased by 8 before packing), packing,
  unpacking and reshaping to the logical shape give the tensor back. Byte \<open>k\<close> of the
  packed storage holds value \<open>2k\<close> in its low nibble and value \<open>2k + 1\<close> in its high
  nibble; unpacking reads them with AND 15 and a right shift by 4.
\<close>

theorem pack_unpack_identity:
  assumes "ws \<noteq> []" and "even (length ws)" and "prod_list s = length ws"
  shows "((\<forall>w\<in>set ws. w \<le> 15) \<longrightarrow>
            ebind (ebind (pack_uint4 (TUInt8 s ws)) unpack_uint4) (reshape s)
              = Inr (TUInt8 s ws)) \<and>
         ((\<forall>w\<in>set ws. - 8 \<le> sint w \<and> sint w \<le> 7) \<longrightarrow>
            ebind (ebind (pack_int4 (TInt8 s ws)) unpack_int4) (reshape s)
              = Inr (TInt8 s ws)) \<and>
         pack_uint4 (TUInt8 s ws) = Inr (TUInt8 [length ws div 2, 1] (pack_pairs ws)) \<and>
         (\<forall>k<length ws div 2.
            pack_pairs ws ! k = ((ws ! (2 * k)) AND 15) OR push_bit 4 (ws ! (2 * k + 1))) \<and>
         unpack_uint4 (TUInt8 [length ws div 2, 1] (pack_pairs ws))
           = Inr (TUInt8 [length ws div 2, 1, 2]
                   (concat (map (\<lambda>p. [p AND 15, drop_bit 4 p]) (pack_pairs ws))))"
proof (intro conjI impI allI)
  assume "\<forall>w\<in>set ws. w \<le> 15"
  then show "ebind (ebind (pack_uint4 (TUInt8 s ws)) unpack_uint4) (reshape s) = Inr (TUInt8 s ws)"
    using assms by (simp add: unpack_pack_pairs reshape_def)
next
  assume r: "\<forall>w\<in>set ws. - 8 \<le> sint w \<and> sint w \<le> 7"
  let ?bs = "map (\<lambda>w. w + 8) ws"
  have b: "\<forall>w\<in>set ?bs. w \<le> 15" using r by (auto simp: bias_le15)
  have e: "even (length ?bs)" using assms by simp
  have "concat (map (\<lambda>p. [p AND 15, drop_bit 4 p]) (pack_pairs ?bs)) = ?bs"
    using unpack_pack_pairs [OF e b] .
  then show "ebind (ebind (pack_int4 (TInt8 s ws)) unpack_int4) (reshape s) = Inr (TInt8 s ws)"
    using assms by (simp add: unpack_int4_def comp_def reshape_def)
next
  fix k assume "k < length ws div 2"
  then show "pack_pairs ws ! k = ((ws ! (2 * k)) AND 15) OR push_bit 4 (ws ! (2 * k + 1))"
    by (rule pack_pairs_nth)
next
  show "pack_uint4 (TUInt8 s ws) = Inr (TUInt8 [length ws div 2, 1] (pack_pairs ws))"
    using assms by simp
next
  show "unpack_uint4 (TUInt8 [length ws div 2, 1] (pack_pairs ws))
           = Inr (TUInt8 [length ws div 2, 1, 2]
                   (concat (map (\<lambda>p. [p AND 15, drop_bit 4 p]) (pack_pairs ws))))"
    by simp
qed

theorem pack_unpack_identity_witness:
  "ebind (ebind (pack_uint4 (TUInt8 [2, 2] [15, 0, 3, 9])) unpack_uint4) (reshape [2, 2])
     = Inr (TUInt8 [2, 2] [15, 0, 3, 9]) \<and>
   ebind (ebind (pack_int4 (TInt8 [2, 2] [- 8, 7, 0, - 1])) unpack_int4) (reshape [2, 2])
     = Inr (TInt8 [2, 2] [- 8, 7, 0, - 1]) \<and>
   pack_uint4 (TUInt8 [2, 2] [15, 0, 3, 9]) = Inr (TUInt8 [2, 1] [15, 147]) \<and>
   pack_pairs [15, 0, 3, 9] ! 1 = (3 AND 15) OR push_bit 4 9"
proof -
  have a: "ebind (ebind (pack_uint4 (TUInt8 [2, 2] [15, 0, 3, 9])) unpack_uint4) (reshape [2, 2])
     = Inr (TUInt8 [2, 2] [15, 0, 3, 9])"
    using pack_unpack_identity [of "[15, 0, 3, 9]" "[2, 2]"] by simp
  have b: "ebind (ebind (pack_int4 (TInt8 [2, 2] [- 8, 7, 0, - 1])) unpack_int4) (reshape [2, 2])
     = Inr (TInt8 [2, 2] [- 8, 7, 0, - 1])"
    using pack_unpack_identity [of "[- 8, 7, 0, - 1]" "[2, 2]"] by simp
  have c: "pack_uint4 (TUInt8 [2, 2] [15, 0, 3, 9]) = Inr (TUInt8 [2, 1] [15, 147])"
    by simp
  have "\<forall>k<length [15, 0, 3, 9 :: 8 word] div 2.
            pack_pairs [15, 0, 3, 9] ! k
              = (([15, 0, 3, 9] ! (2 * k)) AND 15) OR push_bit 4 ([15, 0, 3, 9] ! (2 * k + 1))"
    using pack_unpack_identity [of "[15, 0, 3, 9]" "[2, 2]"] by simp
  then have d: "pack_pairs [15, 0, 3, 9 :: 8 word] ! 1 = (3 AND 15) OR push_bit 4 9"
    by simp
  show ?thesis using a b c d by simp
qed

section \<open>Validation in the packers\<close>

lemma any_outside_iff: "any_outside lo hi t \<longleftrightarrow> (\<exists>v\<in>set (tvals t). v < lo \<or> hi < v)"
  by (simp add: any_outside_def list_ex_iff)

text \<open>
  Claim C6. An integer tensor with a value outside the legal range of a decompressor
  makes that decompressor's \<^verbatim>\<open>pack_weight\<close> raise its range error: 0 to 255 for 8-bit
  asymmetric, -128 to 127 for 8-bit symmetric, 0 to 15 for 4-bit asymmetric, -8 to 7
  for 4-bit symmetric. In particular a tensor holding 16 is rejected by the unsigned
  4-bit packer and a tensor holding -9 by the signed one.
\<close>

theorem pack_weight_rejects_out_of_range:
  assumes "\<not> is_floating_point t"
  shows "((\<exists>v\<in>set (tvals t). v < 0 \<or> 255 < v) \<longrightarrow>
            pack_weight_INT8Asymmetric t = Inl (ValueError ''Weight values are not in [0, 255].'')) \<and>
         ((\<exists>v\<in>set (tvals t). v < - 128 \<or> 127 < v) \<longrightarrow>
            pack_weight_INT8Symmetric t = Inl (ValueError ''Weight values are not in [-128, 127].'')) \<and>
         ((\<exists>v\<in>set (tvals t). v < 0 \<or> 15 < v) \<longrightarrow>
            pack_weight_INT4Asymmetric t = Inl (ValueError ''Weight values are not in [0, 15].'')) \<and>
         ((\<exists>v\<in>set (tvals t). v < - 8 \<or> 7 < v) \<longrightarrow>
            pack_weight_INT4Symmetric t = Inl (ValueError ''Tensor values are not in [-8, 7].'')) \<and>
         (16 \<in> set (tvals t) \<longrightarrow>
            pack_weight_INT4Asymmetric t = Inl (ValueError ''Weight values are not in [0, 15].'')) \<and>
         (- 9 \<in> set (tvals t) \<longrightarrow>
            pack_weight_INT4Symmetric t = Inl (ValueError ''Tensor values are not in [-8, 7].''))"
proof -
  have a: "16 \<in> set (tvals t) \<Longrightarrow> any_outside 0 15 t"
    unfolding any_outside_iff by (rule bexI [of _ 16]) simp_all
  have b: "- 9 \<in> set (tvals t) \<Longrightarrow> any_outside (- 8) 7 t"
    unfolding any_outside_iff by (rule bexI [of _ "- 9"]) simp_all
  show ?thesis
    using assms a b
    by (simp add: pack_weight_INT8Asymmetric_def pack_weight_INT8Symmetric_def
        pack_weight_INT4Asymmetric_def pack_weight_INT4Symmetric_def any_outside_iff)
qed

theorem pack_weight_rejects_out_of_range_witness:
  "pack_weight_INT8Asymmetric (TInt32 [2] [16, 300])
     = Inl (ValueError ''Weight values are not in [0, 255].'') \<and>
   pack_weight_INT8Symmetric (TInt32 [2] [16, 300])
     = Inl (ValueError ''Weight values are not in [-128, 127].'') \<and>
   pack_weight_INT4Asymmetric (TInt32 [2] [16, 300])
     = Inl (ValueError ''Weight values are not in [0, 15].'') \<and>
   pack_weight_INT4Symmetric (TInt8 [2] [- 9, 0])
     = Inl (ValueError ''Tensor values are not in [-8, 7].'')"
proof -
  have f1: "\<not> is_floating_point (TInt32 [2] [16, 300])" by simp
  have f2: "\<not> is_floating_point (TInt8 [2] [- 9, 0])" by simp
  have v1: "tvals (TInt32 [2] [16, 300]) = [16, 300]" by simp
  have v2: "tvals (TInt8 [2] [- 9, 0]) = [- 9, 0]" by simp
  show ?thesis
    using pack_weight_rejects_out_of_range [OF f1] pack_weight_rejects_out_of_range [OF f2]
    unfolding v1 v2 by simp
qed

text \<open>
  Claim C7. The claim asks every decompressor to reject a floating-point tensor. The
  8-bit asymmetric and the 4-bit symmetric packers test \<^verbatim>\<open>torch.is_floating_point\<close>
  and raise; the 8-bit symmetric and the 4-bit asymmetric packers have no such test,
  and a float tensor with values in range is converted (truncating 1.5 to 1) and
  packed.
\<close>

theorem pack_weight_float_not_rejected:
  "pack_weight_INT8Symmetric (TFloat [2] [3 / 2, 2]) = Inr (TInt8 [2] [1, 2]) \<and>
   pack_weight_INT4Asymmetric (TFloat [2] [3 / 2, 2]) = Inr (TUInt8 [1, 1] [33]) \<and>
   pack_weight_INT8Asymmetric (TFloat [2] [3 / 2, 2])
     = Inl (ValueError ''Invalid weight dtype. Integer types are supported.'') \<and>
   pack_weight_INT4Symmetric (TFloat [2] [3 / 2, 2])
     = Inl (ValueError ''Invalid weight dtype. Integer types are supported.'')"
  by code_simp

section \<open>Reduction axes\<close>

text \<open>
  Claim C1, as stated, fails: for a linear layer the code reduces over the last axis
  alone, where the claim has every axis but the last; and the axes computed for a
  convolution are replaced by the last axis in the \<^verbatim>\<open>else\<close> branch of the test that
  follows.
\<close>

theorem reduction_axes_counterexample:
  "select_reduction_axes ''NNCFLinear'' 3 False False = Some [2] \<and>
   spec_reduction_axes Linear 3 = [0, 1] \<and>
   select_reduction_axes ''NNCFConv2d'' 4 False True = Some [3] \<and>
   spec_reduction_axes Convolution 4 = [1, 2, 3]"
  by code_simp

section \<open>Shapes and indices\<close>

lemma unravel_valid: "i < prod_list s \<Longrightarrow> list_all2 (<) (unravel s i) s"
proof (induction s arbitrary: i)
  case Nil
  then show ?case by simp
next
  case (Cons d ds)
  then have p: "0 < prod_list ds"
    by (cases "prod_list ds = 0") simp_all
  have "i div prod_list ds < d"
    using Cons.prems p by (simp add: less_mult_imp_div_less mult.commute)
  moreover have "i mod prod_list ds < prod_list ds" using p by simp
  ultimately show ?case using Cons.IH by simp
qed

lemma ravel_lt: "list_all2 (<) idx s \<Longrightarrow> ravel s idx < prod_list s"
proof (induction s idx rule: ravel.induct)
  case (1 d ds x xs)
  then have x: "x < d" and r: "ravel ds xs < prod_list ds" by simp_all
  have "x * prod_list ds + ravel ds xs < x * prod_list ds + prod_list ds" using r by simp
  also have "\<dots> = Suc x * prod_list ds" by simp
  also have "\<dots> \<le> d * prod_list ds" using x by (intro mult_le_mono1) simp
  finally show ?case by simp
qed simp_all

lemma stretches_refl: "stretches s s"
  by (simp add: stretches_def list_all2_refl)

lemma stretches_length: "stretches ks s \<Longrightarrow> length ks = length s"
  by (simp add: stretches_def list_all2_lengthD)

lemma keepdims_stretches: "stretches (keepdims_shape axes n s) s"
  unfolding stretches_def by (induction s arbitrary: n) simp_all

lemma merge_stretches: "stretches ks s \<Longrightarrow> merge_shapes s ks = Some s"
  unfolding stretches_def
  by (induction ks s rule: list_all2_induct) auto

lemma pad_same: "length ks = n \<Longrightarrow> pad_shape n ks = ks"
  by (simp add: pad_shape_def)

lemma broadcast_stretches: "stretches ks s \<Longrightarrow> broadcast_shapes s ks = Some s"
  by (simp add: broadcast_shapes_def pad_same stretches_length merge_stretches)

lemma mask_valid:
  "stretches ks s \<Longrightarrow> list_all2 (<) idx s \<Longrightarrow>
   list_all2 (<) (map2 (\<lambda>d x. if d = 1 then 0 else x) ks idx) ks"
  unfolding stretches_def
proof (induction ks s arbitrary: idx rule: list_all2_induct)
  case Nil
  then show ?case by simp
next
  case (Cons k ks d ds)
  then obtain x xs where i: "idx = x # xs" "x < d" "list_all2 (<) xs ds"
    by (cases idx) auto
  then show ?case using Cons by auto
qed

lemma bindex_lt:
  assumes "stretches ks s" and "i < prod_list s"
  shows "bindex s ks i < prod_list ks"
proof -
  have "list_all2 (<) (map2 (\<lambda>d x. if d = 1 then 0 else x) ks (unravel s i)) ks"
    using mask_valid [OF assms(1) unravel_valid [OF assms(2)]] .
  then show ?thesis
    using assms(1) by (simp add: bindex_def pad_same stretches_length ravel_lt)
qed

lemma ravel_mask_unravel:
  "i < prod_list s \<Longrightarrow> ravel s (map2 (\<lambda>d x. if d = 1 then 0 else x) s (unravel s i)) = i"
proof (induction s arbitrary: i)
  case Nil
  then show ?case by simp
next
  case (Cons d ds)
  then have p: "0 < prod_list ds"
    by (cases "prod_list ds = 0") simp_all
  have m: "i mod prod_list ds < prod_list ds" using p by simp
  have q: "i div prod_list ds < d"
    using Cons.prems p by (simp add: less_mult_imp_div_less mult.commute)
  have e: "i div prod_list ds * prod_list ds + i mod prod_list ds = i"
    by (rule div_mult_mod_eq)
  show ?case
  proof (cases "d = 1")
    case True
    then have "i div prod_list ds = 0" using q by simp
    then show ?thesis using Cons.IH [OF m] e True by simp
  next
    case False
    then show ?thesis using Cons.IH [OF m] e by simp
  qed
qed

lemma bindex_same: "i < prod_list s \<Longrightarrow> bindex s s i = i"
  using ravel_mask_unravel [of i s] by (simp add: bindex_def pad_same)

lemma map_upt_cong: "(\<And>i. i < n \<Longrightarrow> f i = g i) \<Longrightarrow> map f [0..<n] = map g [0..<n]"
  by simp

lemma broadcast_op_stretch:
  assumes "tshape a = s" and "tshape b = ks" and "stretches ks s"
  shows "broadcast_op f a b =
     Inr (TFloat s (map (\<lambda>i. f (tvals a ! i) (tvals b ! bindex s ks i)) [0..<prod_list s]))"
  using assms by (simp add: broadcast_op_def broadcast_stretches bindex_same cong: map_cong)

lemma broadcast_op_same:
  assumes "tshape a = s" and "tshape b = s"
  shows "broadcast_op f a b =
     Inr (TFloat s (map (\<lambda>i. f (tvals a ! i) (tvals b ! i)) [0..<prod_list s]))"
  using assms by (simp add: broadcast_op_def broadcast_stretches stretches_refl bindex_same cong: map_cong)

section \<open>Structure of the computed parameters\<close>

lemma reduce_keepdims_Inr:
  "reduce_keepdims g t axes = Inr r \<Longrightarrow>
   \<exists>ms. r = TFloat (keepdims_shape axes 0 (tshape t)) ms
        \<and> length ms = prod_list (keepdims_shape axes 0 (tshape t))"
  by (auto simp: reduce_keepdims_def Let_def split: if_splits)

lemma reduce_keepdims_Inl: "reduce_keepdims g t axes = Inl e \<Longrightarrow> \<not> is_value_error e"
  by (auto simp: reduce_keepdims_def Let_def split: if_splits)

lemma tmap_TFloat [simp]: "tmap f (TFloat s xs) = TFloat s (map f xs)"
  by (simp add: tmap_def)

lemma broadcast_op_TFloat_same:
  "broadcast_op f (TFloat s xs) (TFloat s ys)
     = Inr (TFloat s (map (\<lambda>i. f (xs ! i) (ys ! i)) [0..<prod_list s]))"
  by (simp add: broadcast_op_same [of _ s])

lemma quant_params_asym:
  assumes "quant_params oor nb True w axes = Inr (scale, zp)"
  defines "ks \<equiv> keepdims_shape axes 0 (tshape w)"
  shows "\<exists>mn mx. amin w axes = Inr (TFloat ks mn) \<and> amax w axes = Inr (TFloat ks mx)
           \<and> length mn = prod_list ks \<and> length mx = prod_list ks
           \<and> scale = TFloat ks (map (\<lambda>k. spec_asym_scale nb (mn ! k) (mx ! k)) [0..<prod_list ks])
           \<and> zp = Some (TInt32 ks (map (\<lambda>k. clip_int32 0 (2 ^ nb - 1)
                          (float_to_int32 oor
                             (- real_of_int (round_half_even
                                  (mn ! k / spec_asym_scale nb (mn ! k) (mx ! k))))))
                       [0..<prod_list ks]))"
proof -
  from assms(1) obtain mnt where a: "amin w axes = Inr mnt"
    by (cases "amin w axes") (simp_all add: quant_params_def)
  from assms(1) a obtain mxt where b: "amax w axes = Inr mxt"
    by (cases "amax w axes") (simp_all add: quant_params_def)
  from reduce_keepdims_Inr [OF a [unfolded amin_def]]
  obtain mn where mn: "mnt = TFloat ks mn" "length mn = prod_list ks"
    unfolding ks_def by blast
  from reduce_keepdims_Inr [OF b [unfolded amax_def]]
  obtain mx where mx: "mxt = TFloat ks mx" "length mx = prod_list ks"
    unfolding ks_def by blast
  show ?thesis
    using assms(1) a b mn mx
    by (auto simp: quant_params_def Let_def broadcast_op_TFloat_same spec_asym_scale_def
          comp_def cong: map_cong)
qed

section \<open>Rounding and conversions\<close>


lemma round_half_even_of_int [simp]: "round_half_even (real_of_int n) = n"
  by (simp add: round_half_even_def)

lemma floor_minus_nonint:
  assumes "x \<noteq> real_of_int \<lfloor>x\<rfloor>"
  shows "\<lfloor>- x\<rfloor> = - \<lfloor>x\<rfloor> - 1"
proof (rule floor_unique)
  have a: "real_of_int \<lfloor>x\<rfloor> \<le> x" and b: "x < real_of_int \<lfloor>x\<rfloor> + 1" by linarith+
  have c: "real_of_int \<lfloor>x\<rfloor> < x"
    by (rule order_le_neq_trans [OF a]) (use assms in metis)
  have e: "real_of_int (- \<lfloor>x\<rfloor> - 1) = - real_of_int \<lfloor>x\<rfloor> - 1" by simp
  show "real_of_int (- \<lfloor>x\<rfloor> - 1) \<le> - x" unfolding e using b by linarith
  show "- x < real_of_int (- \<lfloor>x\<rfloor> - 1) + 1" unfolding e using c by linarith
qed

lemma round_half_even_minus: "round_half_even (- x) = - round_half_even x"
proof (cases "x = real_of_int \<lfloor>x\<rfloor>")
  case True
  then have "round_half_even x = \<lfloor>x\<rfloor>"
    using round_half_even_of_int [of "\<lfloor>x\<rfloor>"] by simp
  moreover have "- x = real_of_int (- \<lfloor>x\<rfloor>)" using True by simp
  then have "round_half_even (- x) = - \<lfloor>x\<rfloor>"
    using round_half_even_of_int [of "- \<lfloor>x\<rfloor>"] by simp
  ultimately show ?thesis by simp
next
  case False
  note f = floor_minus_nonint [OF False]
  have e: "even (- \<lfloor>x\<rfloor> - 1) \<longleftrightarrow> odd \<lfloor>x\<rfloor>" by simp
  define d where "d = x - real_of_int \<lfloor>x\<rfloor>"
  have d': "- x - real_of_int (- \<lfloor>x\<rfloor> - 1) = 1 - d" by (simp add: d_def)
  have "round_half_even (- x)
      = (if 1 - d < 1 / 2 then - \<lfloor>x\<rfloor> - 1 else if 1 / 2 < 1 - d then - \<lfloor>x\<rfloor>
         else if odd \<lfloor>x\<rfloor> then - \<lfloor>x\<rfloor> - 1 else - \<lfloor>x\<rfloor>)"
    unfolding round_half_even_def Let_def f e d' by simp
  moreover have "round_half_even x
      = (if d < 1 / 2 then \<lfloor>x\<rfloor> else if 1 / 2 < d then \<lfloor>x\<rfloor> + 1
         else if even \<lfloor>x\<rfloor> then \<lfloor>x\<rfloor> else \<lfloor>x\<rfloor> + 1)"
    unfolding round_half_even_def Let_def d_def by simp
  ultimately show ?thesis by (simp split: if_splits)
qed

lemma trunc_of_int [simp]: "trunc (real_of_int n) = n"
  by (simp add: trunc_def)

lemma sint32_of_int: "- (2 ^ 31) \<le> v \<Longrightarrow> v < 2 ^ 31 \<Longrightarrow> sint (word_of_int v :: 32 word) = v"
  by (simp add: sint_sbintrunc' signed_take_bit_int_eq_self)

lemma sint8_of_int: "- 128 \<le> v \<Longrightarrow> v \<le> 127 \<Longrightarrow> sint (word_of_int v :: 8 word) = v"
  by (simp add: sint_sbintrunc' signed_take_bit_int_eq_self)

lemma uint8_of_int: "0 \<le> v \<Longrightarrow> v \<le> 255 \<Longrightarrow> uint (word_of_int v :: 8 word) = v"
  by (simp add: uint_word_of_int_eq take_bit_int_eq_self)

lemma pow_bound: "nb < 32 \<Longrightarrow> (2 :: int) ^ nb - 1 < 2 ^ 31"
proof -
  assume "nb < 32"
  then have "nb \<le> 31" by simp
  then have "(2 :: int) ^ nb \<le> 2 ^ 31" by (intro power_increasing) simp_all
  then show ?thesis by simp
qed

lemma sint_clip_int32:
  assumes "nb < 32"
  shows "sint (clip_int32 0 (2 ^ nb - 1) w) = min (max (sint w) 0) (2 ^ nb - 1)"
proof -
  have h: "(0 :: int) \<le> 2 ^ nb - 1" by simp
  have "- (2 ^ 31) \<le> (0 :: int)" by simp
  also have "0 \<le> min (max (sint w) 0) ((2 :: int) ^ nb - 1)" using h by simp
  finally have l: "- (2 ^ 31) \<le> min (max (sint w) 0) ((2 :: int) ^ nb - 1)" .
  have u: "min (max (sint w) 0) ((2 :: int) ^ nb - 1) < 2 ^ 31"
    using pow_bound [OF assms] by simp
  show ?thesis unfolding clip_int32_def using l u by (rule sint32_of_int)
qed

lemma float_to_int32_fits:
  "- (2 ^ 31) \<le> n \<Longrightarrow> n < 2 ^ 31 \<Longrightarrow> sint (float_to_int32 oor (real_of_int n)) = n"
  by (simp add: float_to_int32_def sint32_of_int)



lemma quant_params_sym:
  assumes "quant_params oor nb False w axes = Inr (scale, zp)"
  defines "ks \<equiv> keepdims_shape axes 0 (tshape w)"
  shows "\<exists>mn mx. amin w axes = Inr (TFloat ks mn) \<and> amax w axes = Inr (TFloat ks mx)
           \<and> length mn = prod_list ks \<and> length mx = prod_list ks
           \<and> scale = TFloat ks (map (\<lambda>k. spec_sym_scale nb (mn ! k) (mx ! k)) [0..<prod_list ks])
           \<and> zp = None"
proof -
  from assms(1) obtain mnt where a: "amin w axes = Inr mnt"
    by (cases "amin w axes") (simp_all add: quant_params_def)
  from assms(1) a obtain mxt where b: "amax w axes = Inr mxt"
    by (cases "amax w axes") (simp_all add: quant_params_def)
  from reduce_keepdims_Inr [OF a [unfolded amin_def]]
  obtain mn where mn: "mnt = TFloat ks mn" "length mn = prod_list ks"
    unfolding ks_def by blast
  from reduce_keepdims_Inr [OF b [unfolded amax_def]]
  obtain mx where mx: "mxt = TFloat ks mx" "length mx = prod_list ks"
    unfolding ks_def by blast
  show ?thesis
    using assms(1) a b mn mx
    by (auto simp: quant_params_def Let_def broadcast_op_TFloat_same spec_sym_scale_def
          comp_def cong: map_cong)
qed

lemma quant_params_scale_shape:
  assumes "quant_params oor nb am w axes = Inr (scale, zp)"
  shows "tshape scale = keepdims_shape axes 0 (tshape w)"
proof (cases am)
  case True
  with quant_params_asym [of oor nb w axes scale zp] assms show ?thesis by auto
next
  case False
  with quant_params_sym [of oor nb w axes scale zp] assms show ?thesis by auto
qed

lemma linear_disjoint_list:
  "list_all (\<lambda>n. n \<notin> set conv_types \<and> n \<notin> set conv_transpose_types) linear_types"
  by code_simp

lemma conv_transpose_disjoint_list:
  "list_all (\<lambda>n. n \<notin> set conv_types) conv_transpose_types"
  by code_simp

lemma linear_not_conv:
  "name \<in> set linear_types \<Longrightarrow> name \<notin> set conv_types \<and> name \<notin> set conv_transpose_types"
  using linear_disjoint_list unfolding list_all_iff by blast

lemma conv_transpose_not_conv:
  "name \<in> set conv_transpose_types \<Longrightarrow> name \<notin> set conv_types"
  using conv_transpose_disjoint_list unfolding list_all_iff by blast

text \<open>
  Claim C1, amended. A linear layer reduces over its last axis only. A transposed
  convolution, quantized in symmetric mode with \<^verbatim>\<open>quant_conv\<close> set, reduces over all
  axes except axis 1. The scale computed over a set of reduction axes has the shape of
  the weight with every reduced axis shrunk to extent 1.
\<close>

theorem reduction_axes_by_topology:
  "(name \<in> set linear_types \<longrightarrow>
      select_reduction_axes name ndim am qc = Some [ndim - 1]) \<and>
   (name \<in> set conv_transpose_types \<and> \<not> am \<and> qc \<longrightarrow>
      select_reduction_axes name ndim am qc = Some (filter (\<lambda>i. i \<noteq> 1) [0..<ndim])) \<and>
   (quant_params oor nb am w axes = Inr (scale, zp) \<longrightarrow>
      tshape scale = keepdims_shape axes 0 (tshape w))"
proof (intro conjI impI)
  assume "name \<in> set linear_types"
  from linear_not_conv [OF this]
  show "select_reduction_axes name ndim am qc = Some [ndim - 1]"
    by (simp add: select_reduction_axes_def)
next
  assume a: "name \<in> set conv_transpose_types \<and> \<not> am \<and> qc"
  then have "name \<notin> set conv_types" by (simp add: conv_transpose_not_conv)
  with a show "select_reduction_axes name ndim am qc = Some (filter (\<lambda>i. i \<noteq> 1) [0..<ndim])"
    by (simp add: select_reduction_axes_def)
next
  assume "quant_params oor nb am w axes = Inr (scale, zp)"
  then show "tshape scale = keepdims_shape axes 0 (tshape w)"
    by (rule quant_params_scale_shape)
qed

theorem reduction_axes_by_topology_witness:
  "select_reduction_axes ''NNCFLinear'' 2 False False = Some [1] \<and>
   select_reduction_axes ''NNCFConvTranspose2d'' 4 False True = Some [0, 2, 3] \<and>
   quant_params (\<lambda>x. 0) 8 False (TFloat [2, 2] [1, - 2, 3, - 1 / 2]) [1]
     = Inr (TFloat [2, 1] [1 / 64, - (3 / 128)], None) \<and>
   tshape (TFloat [2, 1] [1 / 64, - (3 / 128)]) = keepdims_shape [1] 0 [2, 2]"
proof -
  have l: "''NNCFLinear'' \<in> set linear_types" by (simp add: linear_types_def)
  have t: "''NNCFConvTranspose2d'' \<in> set conv_transpose_types"
    by (simp add: conv_transpose_types_def)
  have q: "quant_params (\<lambda>x. 0) 8 False (TFloat [2, 2] [1, - 2, 3, - 1 / 2]) [1]
     = Inr (TFloat [2, 1] [1 / 64, - (3 / 128)], None)"
    by code_simp
  have a: "select_reduction_axes ''NNCFLinear'' 2 False False = Some [2 - 1]"
    using reduction_axes_by_topology [of "''NNCFLinear''" 2 False False] l by simp
  have b: "select_reduction_axes ''NNCFConvTranspose2d'' 4 False True
      = Some (filter (\<lambda>i. i \<noteq> 1) [0..<4])"
    using reduction_axes_by_topology [of "''NNCFConvTranspose2d''" 4 False True] t by simp
  have c: "tshape (TFloat [2, 1] [1 / 64, - (3 / 128)])
      = keepdims_shape [1] 0 (tshape (TFloat [2, 2] [1, - 2, 3, - 1 / 2]))"
    using reduction_axes_by_topology [of "''x''" 0 False False "\<lambda>x. 0" 8
        "TFloat [2, 2] [1, - 2, 3, - 1 / 2]" "[1]" "TFloat [2, 1] [1 / 64, - (3 / 128)]" None] q
    by simp
  have f: "filter (\<lambda>i. i \<noteq> 1) [0..<4] = [0, 2, 3 :: nat]" by code_simp
  show ?thesis using a b c q f by simp
qed

section \<open>Asymmetric parameters\<close>

lemma asym_zero_point_value:
  fixes mn sc :: real
  assumes "nb < 32"
  defines "r \<equiv> round_half_even (0 - mn / sc)"
  shows "0 \<le> sint (clip_int32 0 (2 ^ nb - 1) (float_to_int32 oor (- real_of_int (round_half_even (mn / sc)))))"
    and "sint (clip_int32 0 (2 ^ nb - 1) (float_to_int32 oor (- real_of_int (round_half_even (mn / sc)))))
           \<le> 2 ^ nb - 1"
    and "- (2 ^ 31) \<le> r \<Longrightarrow> r < 2 ^ 31 \<Longrightarrow>
         sint (clip_int32 0 (2 ^ nb - 1) (float_to_int32 oor (- real_of_int (round_half_even (mn / sc)))))
           = min (max r 0) (2 ^ nb - 1)"
proof -
  let ?w = "float_to_int32 oor (- real_of_int (round_half_even (mn / sc)))"
  have c: "sint (clip_int32 0 (2 ^ nb - 1) ?w) = min (max (sint ?w) 0) (2 ^ nb - 1)"
    by (rule sint_clip_int32 [OF assms(1)])
  have h: "(0 :: int) \<le> 2 ^ nb - 1" by simp
  show "0 \<le> sint (clip_int32 0 (2 ^ nb - 1) ?w)" unfolding c using h by simp
  show "sint (clip_int32 0 (2 ^ nb - 1) ?w) \<le> 2 ^ nb - 1" unfolding c by simp
  have r: "r = - round_half_even (mn / sc)"
    unfolding r_def using round_half_even_minus [of "mn / sc"] by simp
  assume "- (2 ^ 31) \<le> r" and "r < 2 ^ 31"
  then have "sint (float_to_int32 oor (real_of_int r)) = r" by (rule float_to_int32_fits)
  then have "sint ?w = r" unfolding r by simp
  then show "sint (clip_int32 0 (2 ^ nb - 1) ?w) = min (max r 0) (2 ^ nb - 1)"
    unfolding c by simp
qed



section \<open>Symmetric parameters\<close>

lemma quant_params_sym_oor:
  "quant_params oor nb False w axes = quant_params (\<lambda>x. 0) nb False w axes"
  by (simp add: quant_params_def)

text \<open>
  Claim C5, as stated, fails in its example: for the tensor \<open>[[1, -2], [3, -0.5]]\<close>
  reduced as a whole, the code's \<^verbatim>\<open>w_abs_min\<close> is the absolute value of the minimum,
  which is 2, not 0.5.
\<close>

theorem symmetric_abs_min_counterexample:
  "ebind (amin (TFloat [2, 2] [1, - 2, 3, - 1 / 2]) [0, 1]) (\<lambda>m. Inr (tmap abs m))
     = Inr (TFloat [1, 1] [2]) \<and>
   (2 :: real) \<noteq> 1 / 2"
  by code_simp

text \<open>
  Claim C5, amended. In symmetric mode the scale of every channel with minimum \<open>mn\<close>
  and maximum \<open>mx\<close> is \<open>(if \<bar>mn\<bar> \<ge> mx then \<bar>mn\<bar> else - mx) / 2 ^ (num_bits - 1)\<close>,
  replaced by the machine epsilon where its absolute value is smaller, and no zero
  point is produced. For the tensor \<open>[[1, -2], [3, -0.5]]\<close> at 8 bits, reduced as a
  whole, the absolute value of the minimum is 2, the maximum is 3 and the scale is
  \<open>- 3 / 128\<close>.
\<close>

theorem symmetric_parameters:
  "(0 < nb \<and> quant_params oor nb False w axes = Inr (scale, zp) \<longrightarrow>
      zp = None \<and>
      (\<exists>mn mx. amin w axes = Inr mn \<and> amax w axes = Inr mx
         \<and> length (tvals mx) = length (tvals mn)
         \<and> length (tvals scale) = length (tvals mn)
         \<and> (\<forall>k<length (tvals mn).
               tvals scale ! k = spec_sym_scale nb (tvals mn ! k) (tvals mx ! k)))) \<and>
   ebind (amin (TFloat [2, 2] [1, - 2, 3, - 1 / 2]) [0, 1]) (\<lambda>m. Inr (tmap abs m))
     = Inr (TFloat [1, 1] [2]) \<and>
   amax (TFloat [2, 2] [1, - 2, 3, - 1 / 2]) [0, 1] = Inr (TFloat [1, 1] [3]) \<and>
   quant_params oor 8 False (TFloat [2, 2] [1, - 2, 3, - 1 / 2]) [0, 1]
     = Inr (TFloat [1, 1] [- 3 / 128], None)"
proof (intro conjI impI)
  assume h: "0 < nb \<and> quant_params oor nb False w axes = Inr (scale, zp)"
  let ?ks = "keepdims_shape axes 0 (tshape w)"
  from h have q: "quant_params oor nb False w axes = Inr (scale, zp)" by simp
  from quant_params_sym [OF q]
  obtain mn mx where a: "amin w axes = Inr (TFloat ?ks mn)"
    and b: "amax w axes = Inr (TFloat ?ks mx)"
    and l: "length mn = prod_list ?ks" "length mx = prod_list ?ks"
    and s: "scale = TFloat ?ks (map (\<lambda>k. spec_sym_scale nb (mn ! k) (mx ! k)) [0..<prod_list ?ks])"
    and z: "zp = None"
    by blast
  show "zp = None" by (rule z)
  have "length (tvals (TFloat ?ks mx)) = length (tvals (TFloat ?ks mn))
      \<and> length (tvals scale) = length (tvals (TFloat ?ks mn))
      \<and> (\<forall>k<length (tvals (TFloat ?ks mn)).
            tvals scale ! k = spec_sym_scale nb (tvals (TFloat ?ks mn) ! k) (tvals (TFloat ?ks mx) ! k))"
    using l s by simp
  with a b show "\<exists>mn mx. amin w axes = Inr mn \<and> amax w axes = Inr mx
         \<and> length (tvals mx) = length (tvals mn)
         \<and> length (tvals scale) = length (tvals mn)
         \<and> (\<forall>k<length (tvals mn).
               tvals scale ! k = spec_sym_scale nb (tvals mn ! k) (tvals mx ! k))"
    by blast
next
  show "ebind (amin (TFloat [2, 2] [1, - 2, 3, - 1 / 2]) [0, 1]) (\<lambda>m. Inr (tmap abs m))
     = Inr (TFloat [1, 1] [2])"
    by code_simp
next
  show "amax (TFloat [2, 2] [1, - 2, 3, - 1 / 2]) [0, 1] = Inr (TFloat [1, 1] [3])"
    by code_simp
next
  have "quant_params (\<lambda>x. 0) 8 False (TFloat [2, 2] [1, - 2, 3, - 1 / 2]) [0, 1]
     = Inr (TFloat [1, 1] [- 3 / 128], None)"
    by code_simp
  then show "quant_params oor 8 False (TFloat [2, 2] [1, - 2, 3, - 1 / 2]) [0, 1]
     = Inr (TFloat [1, 1] [- 3 / 128], None)"
    by (simp only: quant_params_sym_oor [of oor])
qed

theorem symmetric_parameters_witness:
  "quant_params (\<lambda>x. 0) 8 False (TFloat [2, 2] [1, - 2, 3, - 1 / 2]) [1]
     = Inr (TFloat [2, 1] [1 / 64, - (3 / 128)], None) \<and>
   spec_sym_scale 8 (- 2) 1 = 1 / 64 \<and> spec_sym_scale 8 (- 1 / 2) 3 = - (3 / 128)"
proof -
  let ?w = "TFloat [2, 2] [1, - 2, 3, - 1 / 2]"
  have q: "(0 :: nat) < 8 \<and> quant_params (\<lambda>x. 0) 8 False ?w [1]
     = Inr (TFloat [2, 1] [1 / 64, - (3 / 128)], None)"
    by code_simp
  have a: "amin ?w [1] = Inr (TFloat [2, 1] [- 2, - 1 / 2])" by code_simp
  have b: "amax ?w [1] = Inr (TFloat [2, 1] [1, 3])" by code_simp
  from symmetric_parameters [where nb = 8 and oor = "\<lambda>x. 0" and w = ?w and axes = "[1]"
      and scale = "TFloat [2, 1] [1 / 64, - (3 / 128)]" and zp = None] q
  obtain mn mx where m: "amin ?w [1] = Inr mn" "amax ?w [1] = Inr mx"
    and k: "\<forall>k<length (tvals mn).
               tvals (TFloat [2, 1] [1 / 64, - (3 / 128)]) ! k
                 = spec_sym_scale 8 (tvals mn ! k) (tvals mx ! k)"
    by blast
  from m a b have e: "mn = TFloat [2, 1] [- 2, - 1 / 2]" "mx = TFloat [2, 1] [1, 3]"
    by simp_all
  from k [rule_format, of 0] k [rule_format, of 1]
  have "spec_sym_scale 8 (- 2) 1 = 1 / 64" "spec_sym_scale 8 (- 1 / 2) 3 = - (3 / 128)"
    unfolding e by simp_all
  with q show ?thesis by simp
qed

section \<open>The quantized weight\<close>

lemma clip_of_int:
  "clip (real_of_int lo) (real_of_int hi) (real_of_int q) = real_of_int (min (max q lo) hi)"
  by (simp add: clip_def min_def max_def)

lemma trunc_clip_code:
  "trunc (clip (real_of_int (level_low nb am)) (real_of_int (level_high nb am))
            (real_of_int (round_half_even (x / sc + z))))
     = quantized_code nb am x sc z"
  by (simp only: clip_of_int trunc_of_int quantized_code_def rounded_code_def)

lemma compress_weight_sym:
  assumes "stretches ks s"
  shows "compress_weight nb False (TFloat s xs) (TFloat ks sd) None
     = Inr (TInt8 s (map (\<lambda>i. word_of_int (quantized_code nb False (xs ! i) (sd ! bindex s ks i) 0))
                      [0..<prod_list s]))"
proof -
  have b: "broadcast_op (/) (TFloat s xs) (TFloat ks sd)
      = Inr (TFloat s (map (\<lambda>i. xs ! i / sd ! bindex s ks i) [0..<prod_list s]))"
    using broadcast_op_stretch [of "TFloat s xs" s "TFloat ks sd" ks "(/)"] assms by simp
  have t: "\<And>x sc. word_of_int (trunc (clip (real_of_int (level_low nb False))
                (real_of_int (level_high nb False)) (real_of_int (round_half_even (x / sc + 0)))))
             = (word_of_int (quantized_code nb False x sc 0) :: 8 word)"
    by (simp only: trunc_clip_code)
  show ?thesis
    unfolding compress_weight_def Let_def b
    using t by (simp add: level_low_def level_high_def comp_def)
qed

lemma compress_weight_asym:
  assumes "stretches ks s" and "length zd = prod_list ks"
  shows "compress_weight nb True (TFloat s xs) (TFloat ks sd) (Some (TInt32 ks zd))
     = Inr (TUInt8 s (map (\<lambda>i. word_of_int (quantized_code nb True (xs ! i) (sd ! bindex s ks i)
                                     (real_of_int (sint (zd ! bindex s ks i)))))
                      [0..<prod_list s]))"
proof -
  have b: "broadcast_op (/) (TFloat s xs) (TFloat ks sd)
      = Inr (TFloat s (map (\<lambda>i. xs ! i / sd ! bindex s ks i) [0..<prod_list s]))"
    using broadcast_op_stretch [of "TFloat s xs" s "TFloat ks sd" ks "(/)"] assms by simp
  let ?cw = "TFloat s (map (\<lambda>i. xs ! i / sd ! bindex s ks i) [0..<prod_list s])"
  have z: "to_float32 (TInt32 ks zd) = TFloat ks (map (\<lambda>w. real_of_int (sint w)) zd)"
    by (simp add: to_float32_def)
  have "broadcast_op (+) ?cw (TFloat ks (map (\<lambda>w. real_of_int (sint w)) zd))
      = Inr (TFloat s (map (\<lambda>i. tvals ?cw ! i
                               + tvals (TFloat ks (map (\<lambda>w. real_of_int (sint w)) zd)) ! bindex s ks i)
                        [0..<prod_list s]))"
    using broadcast_op_stretch [of ?cw s "TFloat ks (map (\<lambda>w. real_of_int (sint w)) zd)" ks "(+)"]
      assms by simp
  also have "map (\<lambda>i. tvals ?cw ! i
                       + tvals (TFloat ks (map (\<lambda>w. real_of_int (sint w)) zd)) ! bindex s ks i)
                 [0..<prod_list s]
      = map (\<lambda>i. xs ! i / sd ! bindex s ks i + real_of_int (sint (zd ! bindex s ks i)))
            [0..<prod_list s]"
  proof (rule map_upt_cong)
    fix i assume i: "i < prod_list s"
    then have "bindex s ks i < length zd" using bindex_lt [OF assms(1)] assms(2) by simp
    then show "tvals ?cw ! i + tvals (TFloat ks (map (\<lambda>w. real_of_int (sint w)) zd)) ! bindex s ks i
        = xs ! i / sd ! bindex s ks i + real_of_int (sint (zd ! bindex s ks i))"
      using i by simp
  qed
  finally have a: "add_inplace ?cw (to_float32 (TInt32 ks zd))
      = Inr (TFloat s (map (\<lambda>i. xs ! i / sd ! bindex s ks i + real_of_int (sint (zd ! bindex s ks i)))
            [0..<prod_list s]))"
    unfolding add_inplace_def z by simp
  have t: "\<And>x sc z. word_of_int (trunc (clip (real_of_int (level_low nb True))
                (real_of_int (level_high nb True)) (real_of_int (round_half_even (x / sc + z)))))
             = (word_of_int (quantized_code nb True x sc z) :: 8 word)"
    by (simp only: trunc_clip_code)
  show ?thesis
    unfolding compress_weight_def Let_def b
    using t by (simp add: a level_low_def level_high_def comp_def)
qed

lemma levels_4_8:
  "level_low 4 True = 0" "level_high 4 True = 15" "level_low 8 True = 0" "level_high 8 True = 255"
  "level_low 4 False = - 8" "level_high 4 False = 7"
  "level_low 8 False = - 128" "level_high 8 False = 127"
  by (simp_all add: level_low_def level_high_def)

lemma quantized_code_range:
  assumes "nb = 4 \<or> nb = 8"
  shows "level_low nb am \<le> quantized_code nb am x sc z"
    and "quantized_code nb am x sc z \<le> level_high nb am"
proof -
  have "level_low nb am \<le> level_high nb am"
    using assms by (cases am) (auto simp: levels_4_8)
  then show "level_low nb am \<le> quantized_code nb am x sc z"
    by (simp add: quantized_code_def)
  show "quantized_code nb am x sc z \<le> level_high nb am"
    by (simp add: quantized_code_def)
qed


lemma uint_code:
  assumes "nb = 4 \<or> nb = 8"
  shows "uint (word_of_int (quantized_code nb True x sc z) :: 8 word) = quantized_code nb True x sc z"
proof (rule uint8_of_int)
  show "0 \<le> quantized_code nb True x sc z"
    using quantized_code_range(1) [OF assms, of True x sc z] assms by (auto simp: levels_4_8)
  show "quantized_code nb True x sc z \<le> 255"
    using quantized_code_range(2) [OF assms, of True x sc z] assms by (auto simp: levels_4_8)
qed

lemma sint_code:
  assumes "nb = 4 \<or> nb = 8"
  shows "sint (word_of_int (quantized_code nb False x sc z) :: 8 word) = quantized_code nb False x sc z"
proof (rule sint8_of_int)
  show "- 128 \<le> quantized_code nb False x sc z"
    using quantized_code_range(1) [OF assms, of False x sc z] assms by (auto simp: levels_4_8)
  show "quantized_code nb False x sc z \<le> 127"
    using quantized_code_range(2) [OF assms, of False x sc z] assms by (auto simp: levels_4_8)
qed





section \<open>What the decompressors compute\<close>







section \<open>Quantize, pack, decompress\<close>

lemma real_sint_code:
  "nb = 4 \<or> nb = 8 \<Longrightarrow>
   real_of_int (sint (word_of_int (quantized_code nb False x sc z) :: 8 word))
     = real_of_int (quantized_code nb False x sc z)"
  by (simp only: sint_code)

lemma real_uint_code:
  "nb = 4 \<or> nb = 8 \<Longrightarrow>
   real_of_int (uint (word_of_int (quantized_code nb True x sc z) :: 8 word))
     = real_of_int (quantized_code nb True x sc z)"
  by (simp only: uint_code)







section \<open>Round trip\<close>











section \<open>Errors of the quantization pass\<close>

lemma ebind_eq_Inl: "ebind m f = Inl e \<longleftrightarrow> m = Inl e \<or> (\<exists>x. m = Inr x \<and> f x = Inl e)"
  by (cases m) simp_all

lemma pack_uint4_Inl: "pack_uint4 t = Inl e \<Longrightarrow> \<not> is_value_error e"
  by (cases t) (auto split: if_splits)

lemma quant_params_Inl:
  assumes "quant_params oor nb am w axes = Inl e"
  shows "\<not> is_value_error e"
proof (cases "amin w axes")
  case (Inl a)
  then have "e = a" using assms by (simp add: quant_params_def split: if_splits)
  with Inl reduce_keepdims_Inl show ?thesis unfolding amin_def by blast
next
  case (Inr mnt)
  from reduce_keepdims_Inr [OF Inr [unfolded amin_def]]
  obtain mn where mn: "mnt = TFloat (keepdims_shape axes 0 (tshape w)) mn" by blast
  show ?thesis
  proof (cases "amax w axes")
    case (Inl a)
    then have "e = a" using assms Inr by (simp add: quant_params_def split: if_splits)
    with Inl reduce_keepdims_Inl show ?thesis unfolding amax_def by blast
  next
    case r: (Inr mxt)
    from reduce_keepdims_Inr [OF r [unfolded amax_def]]
    obtain mx where mx: "mxt = TFloat (keepdims_shape axes 0 (tshape w)) mx" by blast
    from assms Inr r mn mx have False
      by (simp add: quant_params_def Let_def broadcast_op_TFloat_same split: if_splits)
    then show ?thesis ..
  qed
qed

lemma asym_codes_not_outside:
  assumes "nb = 4 \<or> nb = 8"
  shows "\<not> any_outside 0 (real_of_int (level_high nb True))
            (TUInt8 s (map (\<lambda>i. word_of_int (quantized_code nb True (f i) (g i) (h i))) is))"
proof -
  have l: "level_low nb True = 0" by (simp add: level_low_def)
  have "\<And>i. 0 \<le> real_of_int (uint (word_of_int (quantized_code nb True (f i) (g i) (h i)) :: 8 word))
          \<and> real_of_int (uint (word_of_int (quantized_code nb True (f i) (g i) (h i)) :: 8 word))
               \<le> real_of_int (level_high nb True)"
    unfolding real_uint_code [OF assms]
    using quantized_code_range [OF assms, of True] unfolding l
    by (simp only: of_int_0_le_iff of_int_le_iff)
  then show ?thesis
    unfolding any_outside_iff by (simp only: tvals.simps set_map bex_simps de_Morgan_disj not_less) blast
qed

lemma sym_codes_not_outside:
  assumes "nb = 4 \<or> nb = 8"
  shows "\<not> any_outside (real_of_int (level_low nb False)) (real_of_int (level_high nb False))
            (TInt8 s (map (\<lambda>i. word_of_int (quantized_code nb False (f i) (g i) 0)) is))"
proof -
  have "\<And>i. real_of_int (level_low nb False)
            \<le> real_of_int (sint (word_of_int (quantized_code nb False (f i) (g i) 0) :: 8 word))
          \<and> real_of_int (sint (word_of_int (quantized_code nb False (f i) (g i) 0) :: 8 word))
               \<le> real_of_int (level_high nb False)"
    unfolding real_sint_code [OF assms]
    using quantized_code_range [OF assms, of False]
    by (simp only: of_int_le_iff)
  then show ?thesis
    unfolding any_outside_iff by (simp only: tvals.simps set_map bex_simps de_Morgan_disj not_less) blast
qed

lemma zero_point_not_outside:
  assumes "\<forall>z\<in>set zd. 0 \<le> sint z \<and> sint z \<le> hi"
  shows "\<not> any_outside 0 (real_of_int hi) (TInt32 ks zd)"
proof -
  have "\<And>z. z \<in> set zd \<Longrightarrow> 0 \<le> real_of_int (sint z) \<and> real_of_int (sint z) \<le> real_of_int hi"
    using assms by (simp only: of_int_0_le_iff of_int_le_iff)
  then show ?thesis
    unfolding any_outside_iff
    by (simp only: tvals.simps set_map bex_simps de_Morgan_disj not_less) blast
qed

lemma pack_weight_of_made:
  assumes "make_decompressor nb am scale zp cs ws = Inr d"
  shows "pack_weight d cw =
     (if nb = 4 then (if am then pack_weight_INT4Asymmetric cw else pack_weight_INT4Symmetric cw)
      else (if am then pack_weight_INT8Asymmetric cw else pack_weight_INT8Symmetric cw))"
  using assms
  by (auto simp: make_decompressor_def new_INT4Asymmetric_def new_INT8Asymmetric_def ebind_eq_Inr
        split: if_splits option.splits)

lemma make_decompressor_Inl:
  assumes nb: "nb = 4 \<or> nb = 8"
    and zp: "am \<Longrightarrow> zp = Some (TInt32 ks zd) \<and> (\<forall>z\<in>set zd. 0 \<le> sint z \<and> sint z \<le> 2 ^ nb - 1)"
    and md: "make_decompressor nb am scale zp cs ws = Inl e"
  shows "\<not> is_value_error e"
proof (cases am)
  case False
  with md show ?thesis by (simp add: make_decompressor_def split: if_splits)
next
  case True
  from zp [OF True] have z: "zp = Some (TInt32 ks zd)"
    and r: "\<forall>z\<in>set zd. 0 \<le> sint z \<and> sint z \<le> 2 ^ nb - 1" by simp_all
  show ?thesis
  proof (cases "nb = 4")
    case nb4: True
    have "\<not> any_outside 0 (real_of_int (2 ^ nb - 1)) (TInt32 ks zd)"
      by (rule zero_point_not_outside [OF r])
    then have "\<not> any_outside 0 15 (TInt32 ks zd)" using nb4 by simp
    with md True nb4 z have "pack_uint4 (to_uint8 (TInt32 ks zd)) = Inl e"
      by (simp add: make_decompressor_def new_INT4Asymmetric_def pack_weight_INT4Asymmetric_def
            ebind_eq_Inl)
    then show ?thesis by (rule pack_uint4_Inl)
  next
    case False
    then have nb8: "nb = 8" using nb by simp
    have "\<not> any_outside 0 (real_of_int (2 ^ nb - 1)) (TInt32 ks zd)"
      by (rule zero_point_not_outside [OF r])
    then have "\<not> any_outside 0 255 (TInt32 ks zd)" using nb8 by simp
    with md True nb8 z have False
      by (simp add: make_decompressor_def new_INT8Asymmetric_def pack_weight_INT8Asymmetric_def
            ebind_eq_Inl)
    then show ?thesis ..
  qed
qed

lemma pack_stage_asym_Inl:
  assumes nb: "nb = 4 \<or> nb = 8"
    and cw: "cw = TUInt8 s (map (\<lambda>i. word_of_int (quantized_code nb True (f i) (g i) (h i))) is)"
    and pk: "(if nb = 4 then pack_weight_INT4Asymmetric cw else pack_weight_INT8Asymmetric cw) = Inl e"
  shows "\<not> is_value_error e"
proof -
  note o = asym_codes_not_outside [OF nb, of s f g h "is", folded cw]
  show ?thesis
  proof (cases "nb = 4")
    case True
    then have "\<not> any_outside 0 15 cw" using o by (simp add: levels_4_8)
    with pk True have "pack_uint4 (to_uint8 cw) = Inl e"
      by (simp add: pack_weight_INT4Asymmetric_def)
    then show ?thesis by (rule pack_uint4_Inl)
  next
    case False
    then have nb8: "nb = 8" using nb by simp
    then have "\<not> any_outside 0 255 cw" using o by (simp add: levels_4_8)
    with pk nb8 cw have False by (simp add: pack_weight_INT8Asymmetric_def)
    then show ?thesis ..
  qed
qed

lemma pack_stage_sym_Inl:
  assumes nb: "nb = 4 \<or> nb = 8"
    and cw: "cw = TInt8 s (map (\<lambda>i. word_of_int (quantized_code nb False (f i) (g i) 0)) is)"
    and pk: "(if nb = 4 then pack_weight_INT4Symmetric cw else pack_weight_INT8Symmetric cw) = Inl e"
  shows "\<not> is_value_error e"
proof -
  note o = sym_codes_not_outside [OF nb, of s f g "is", folded cw]
  show ?thesis
  proof (cases "nb = 4")
    case True
    then have "\<not> any_outside (- 8) 7 cw" using o by (simp add: levels_4_8)
    with pk True cw have "pack_uint4 (to_uint8 (TInt8 s (map (\<lambda>w. w + 8)
        (map (\<lambda>i. word_of_int (quantized_code nb False (f i) (g i) 0)) is)))) = Inl e"
      by (simp add: pack_weight_INT4Symmetric_def)
    then show ?thesis by (rule pack_uint4_Inl)
  next
    case False
    then have nb8: "nb = 8" using nb by simp
    then have "\<not> any_outside (- 128) 127 cw" using o by (simp add: levels_4_8)
    with pk nb8 have False by (simp add: pack_weight_INT8Symmetric_def)
    then show ?thesis ..
  qed
qed

lemma compress_layer_Inl:
  assumes nb: "nb = 4 \<or> nb = 8"
    and c: "nncf_compress_layer oor L nb am qc = Inl e"
  shows "\<not> is_value_error e"
proof -
  let ?s = "tshape (weight L)" and ?xs = "tvals (weight L)"
  have w: "to_float32 (weight L) = TFloat ?s ?xs" by (simp add: to_float32_def)
  from c obtain axes where
    r: "ebind (quant_params oor nb am (TFloat ?s ?xs) axes) (\<lambda>(scale, zero_point).
          ebind (compress_weight nb am (TFloat ?s ?xs) scale zero_point) (\<lambda>compressed_weight.
          ebind (make_decompressor nb am scale zero_point (tshape compressed_weight) ?s) (\<lambda>decompressor.
          ebind (pack_weight decompressor compressed_weight) (\<lambda>compressed_weight.
          Inr (L\<lparr>weight := compressed_weight, requires_grad := False,
                   pre_ops := pre_ops L @ [decompressor]\<rparr>))))) = Inl e"
    unfolding nncf_compress_layer_def Let_def w
    by (auto split: if_splits option.splits)
  let ?ks = "keepdims_shape axes 0 ?s"
  have st: "stretches ?ks ?s" by (rule keepdims_stretches)
  have nb32: "nb < 32" using nb by auto
  show ?thesis
  proof (cases "quant_params oor nb am (TFloat ?s ?xs) axes")
    case (Inl a)
    with r have "a = e" by simp
    with Inl quant_params_Inl show ?thesis by blast
  next
    case (Inr p)
    obtain scale zp where p: "p = (scale, zp)" by (cases p)
    note qp = Inr [unfolded p]
    show ?thesis
    proof (cases am)
      case True
      then have e: "am = True" by simp
      from quant_params_asym [OF qp [unfolded e]]
      obtain mn mx where
        s0: "scale = TFloat ?ks (map (\<lambda>k. spec_asym_scale nb (mn ! k) (mx ! k)) [0..<prod_list ?ks])"
        and z0: "zp = Some (TInt32 ?ks (map (\<lambda>k. clip_int32 0 (2 ^ nb - 1)
                          (float_to_int32 oor
                             (- real_of_int (round_half_even
                                  (mn ! k / spec_asym_scale nb (mn ! k) (mx ! k))))))
                       [0..<prod_list ?ks]))"
        by auto
      define sd where "sd = map (\<lambda>k. spec_asym_scale nb (mn ! k) (mx ! k)) [0..<prod_list ?ks]"
      define zd where "zd = map (\<lambda>k. clip_int32 0 (2 ^ nb - 1)
                          (float_to_int32 oor
                             (- real_of_int (round_half_even
                                  (mn ! k / spec_asym_scale nb (mn ! k) (mx ! k))))))
                       [0..<prod_list ?ks]"
      have s: "scale = TFloat ?ks sd" and z: "zp = Some (TInt32 ?ks zd)"
        unfolding sd_def zd_def using s0 z0 by simp_all
      have lz: "length zd = prod_list ?ks" unfolding zd_def by simp
      have rz: "\<forall>z\<in>set zd. 0 \<le> sint z \<and> sint z \<le> 2 ^ nb - 1"
        unfolding zd_def using asym_zero_point_value(1,2) [OF nb32] by auto
      note cwe = compress_weight_asym [OF st lz, of nb ?xs sd]
      have qpT: "quant_params oor nb True (TFloat ?s ?xs) axes
          = Inr (TFloat ?ks sd, Some (TInt32 ?ks zd))"
        using qp e s z by simp
      from r [unfolded e qpT]
      have m: "ebind (make_decompressor nb True (TFloat ?ks sd) (Some (TInt32 ?ks zd)) (tshape
             (TUInt8 ?s (map (\<lambda>i. word_of_int (quantized_code nb True (?xs ! i) (sd ! bindex ?s ?ks i)
                                     (real_of_int (sint (zd ! bindex ?s ?ks i)))))
                      [0..<prod_list ?s]))) ?s) (\<lambda>decompressor.
          ebind (pack_weight decompressor
             (TUInt8 ?s (map (\<lambda>i. word_of_int (quantized_code nb True (?xs ! i) (sd ! bindex ?s ?ks i)
                                     (real_of_int (sint (zd ! bindex ?s ?ks i)))))
                      [0..<prod_list ?s]))) (\<lambda>compressed_weight.
          Inr (L\<lparr>weight := compressed_weight, requires_grad := False,
                   pre_ops := pre_ops L @ [decompressor]\<rparr>))) = Inl e"
        by (simp only: ebind_Inr prod.case cwe)
      let ?cw = "TUInt8 ?s (map (\<lambda>i. word_of_int (quantized_code nb True (?xs ! i) (sd ! bindex ?s ?ks i)
                                     (real_of_int (sint (zd ! bindex ?s ?ks i)))))
                      [0..<prod_list ?s])"
      show ?thesis
      proof (cases "make_decompressor nb True (TFloat ?ks sd) (Some (TInt32 ?ks zd)) (tshape ?cw) ?s")
        case (Inl a)
        with m have "a = e" by simp
        with Inl make_decompressor_Inl [OF nb, of True "Some (TInt32 ?ks zd)" ?ks zd
            "TFloat ?ks sd" "tshape ?cw" ?s e] rz
        show ?thesis by blast
      next
        case d: (Inr d)
        with m have "pack_weight d ?cw = Inl e" by (simp add: ebind_eq_Inl)
        then have "(if nb = 4 then pack_weight_INT4Asymmetric ?cw else pack_weight_INT8Asymmetric ?cw)
            = Inl e"
          unfolding pack_weight_of_made [OF d] by (simp only: if_True if_False)
        from pack_stage_asym_Inl [OF nb refl this] show ?thesis .
      qed
    next
      case False
      then have e: "am = False" by simp
      from quant_params_sym [OF qp [unfolded e]]
      obtain sd where s: "scale = TFloat ?ks sd" and z: "zp = None" by auto
      note cwe = compress_weight_sym [OF st, of nb ?xs sd]
      let ?cw = "TInt8 ?s (map (\<lambda>i. word_of_int (quantized_code nb False (?xs ! i) (sd ! bindex ?s ?ks i) 0))
                      [0..<prod_list ?s])"
      have qpF: "quant_params oor nb False (TFloat ?s ?xs) axes = Inr (TFloat ?ks sd, None)"
        using qp e s z by simp
      from r [unfolded e qpF]
      have m: "ebind (make_decompressor nb False (TFloat ?ks sd) None (tshape ?cw) ?s) (\<lambda>decompressor.
          ebind (pack_weight decompressor ?cw) (\<lambda>compressed_weight.
          Inr (L\<lparr>weight := compressed_weight, requires_grad := False,
                   pre_ops := pre_ops L @ [decompressor]\<rparr>))) = Inl e"
        by (simp only: ebind_Inr prod.case cwe)
      show ?thesis
      proof (cases "make_decompressor nb False (TFloat ?ks sd) None (tshape ?cw) ?s")
        case (Inl a)
        with m have "a = e" by simp
        with Inl make_decompressor_Inl [OF nb, of False None ?ks "[]" "TFloat ?ks sd" "tshape ?cw" ?s e]
        show ?thesis by blast
      next
        case d: (Inr d)
        with m have "pack_weight d ?cw = Inl e" by (simp add: ebind_eq_Inl)
        then have "(if nb = 4 then pack_weight_INT4Symmetric ?cw else pack_weight_INT8Symmetric ?cw)
            = Inl e"
          unfolding pack_weight_of_made [OF d] by (simp only: if_True if_False)
        from pack_stage_sym_Inl [OF nb refl this] show ?thesis .
      qed
    qed
  qed
qed

text \<open>
  Claim C10. At 4 or 8 bits, the codes that \<^verbatim>\<open>nncf_compress_layer\<close> hands to
  \<^verbatim>\<open>pack_weight\<close> are integers of dtype uint8 or int8 between the levels of the mode,
  and no call of \<^verbatim>\<open>nncf_compress_layer\<close> ends in a \<^verbatim>\<open>ValueError\<close>: the range and
  dtype checks of \<^verbatim>\<open>pack_weight\<close> cannot fire on this path.
\<close>

theorem pack_range_error_unreachable:
  assumes "nb = 4 \<or> nb = 8"
  shows "(\<forall>m. nncf_compress_layer oor L nb am qc \<noteq> Inl (ValueError m)) \<and>
         (\<forall>axes scale zp cw.
            quant_params oor nb am (to_float32 (weight L)) axes = Inr (scale, zp) \<and>
            compress_weight nb am (to_float32 (weight L)) scale zp = Inr cw \<longrightarrow>
            \<not> is_floating_point cw \<and>
            (\<forall>v\<in>set (tvals cw).
               real_of_int (level_low nb am) \<le> v \<and> v \<le> real_of_int (level_high nb am)))"
proof (rule conjI)
  show "\<forall>m. nncf_compress_layer oor L nb am qc \<noteq> Inl (ValueError m)"
  proof (intro allI notI)
    fix m
    assume "nncf_compress_layer oor L nb am qc = Inl (ValueError m)"
    from compress_layer_Inl [OF assms this] show False by simp
  qed
next
  show "\<forall>axes scale zp cw.
            quant_params oor nb am (to_float32 (weight L)) axes = Inr (scale, zp) \<and>
            compress_weight nb am (to_float32 (weight L)) scale zp = Inr cw \<longrightarrow>
            \<not> is_floating_point cw \<and>
            (\<forall>v\<in>set (tvals cw).
               real_of_int (level_low nb am) \<le> v \<and> v \<le> real_of_int (level_high nb am))"
  proof (intro allI impI)
    fix axes scale zp cw
    assume h: "quant_params oor nb am (to_float32 (weight L)) axes = Inr (scale, zp) \<and>
              compress_weight nb am (to_float32 (weight L)) scale zp = Inr cw"
    let ?s = "tshape (weight L)" and ?xs = "tvals (weight L)"
    let ?ks = "keepdims_shape axes 0 ?s"
    have w: "to_float32 (weight L) = TFloat ?s ?xs" by (simp add: to_float32_def)
    have st: "stretches ?ks ?s" by (rule keepdims_stretches)
    from h have qp: "quant_params oor nb am (TFloat ?s ?xs) axes = Inr (scale, zp)"
      and cw: "compress_weight nb am (TFloat ?s ?xs) scale zp = Inr cw"
      unfolding w by simp_all
    have "\<not> is_floating_point cw \<and>
        \<not> any_outside (real_of_int (level_low nb am)) (real_of_int (level_high nb am)) cw"
    proof (cases am)
      case True
      then have e: "am = True" by simp
      from quant_params_asym [OF qp [unfolded e]]
      obtain sd zd where s: "scale = TFloat ?ks sd" and z: "zp = Some (TInt32 ?ks zd)"
        and lz: "length zd = prod_list ?ks"
        by auto
      from cw [unfolded e s z compress_weight_asym [OF st lz]]
      have c: "cw = TUInt8 ?s (map (\<lambda>i. word_of_int (quantized_code nb True (?xs ! i) (sd ! bindex ?s ?ks i)
                                       (real_of_int (sint (zd ! bindex ?s ?ks i)))))
                        [0..<prod_list ?s])"
        by (simp only: sum.inject)
      have l: "real_of_int (level_low nb True) = 0" by (simp add: level_low_def)
      have o: "\<not> any_outside 0 (real_of_int (level_high nb True)) cw"
        unfolding c by (rule asym_codes_not_outside [OF assms])
      have f: "\<not> is_floating_point cw" unfolding c by simp
      show ?thesis unfolding e l using f o by (rule conjI)
    next
      case False
      then have e: "am = False" by simp
      from quant_params_sym [OF qp [unfolded e]]
      obtain sd where s: "scale = TFloat ?ks sd" and z: "zp = None" by auto
      from cw [unfolded e s z compress_weight_sym [OF st]]
      have c: "cw = TInt8 ?s (map (\<lambda>i. word_of_int (quantized_code nb False (?xs ! i) (sd ! bindex ?s ?ks i) 0))
                        [0..<prod_list ?s])"
        by (simp only: sum.inject)
      have o: "\<not> any_outside (real_of_int (level_low nb False)) (real_of_int (level_high nb False)) cw"
        unfolding c by (rule sym_codes_not_outside [OF assms])
      have f: "\<not> is_floating_point cw" unfolding c by simp
      show ?thesis unfolding e using f o by (rule conjI)
    qed
    then have a: "\<not> is_floating_point cw"
      and b: "\<not> any_outside (real_of_int (level_low nb am)) (real_of_int (level_high nb am)) cw"
      by blast+
    from b have "\<forall>v\<in>set (tvals cw).
               real_of_int (level_low nb am) \<le> v \<and> v \<le> real_of_int (level_high nb am)"
      unfolding any_outside_iff by (simp only: bex_simps de_Morgan_disj not_less)
    with a show "\<not> is_floating_point cw \<and>
            (\<forall>v\<in>set (tvals cw).
               real_of_int (level_low nb am) \<le> v \<and> v \<le> real_of_int (level_high nb am))"
      by (rule conjI)
  qed
qed

theorem pack_range_error_unreachable_witness:
  "nncf_compress_layer (\<lambda>x. 0)
      \<lparr>class_name = ''NNCFLinear'', weight = TFloat [2, 2] [1, - 2, 3, - 1 / 2],
       requires_grad = True, pre_ops = []\<rparr> 4 False False
     \<noteq> Inl (ValueError ''Tensor values are not in [-8, 7].'') \<and>
   compress_weight 4 False (TFloat [2, 2] [1, - 2, 3, - 1 / 2]) (TFloat [2, 1] [1 / 4, - (3 / 8)]) None
     = Inr (TInt8 [2, 2] [4, - 8, - 8, 1]) \<and>
   \<not> is_floating_point (TInt8 [2, 2] [4, - 8, - 8, 1]) \<and>
   real_of_int (level_low 4 False) \<le> - 8 \<and> (- 8 :: real) \<le> real_of_int (level_high 4 False)"
proof -
  let ?L = "\<lparr>class_name = ''NNCFLinear'', weight = TFloat [2, 2] [1, - 2, 3, - 1 / 2],
       requires_grad = True, pre_ops = []\<rparr>"
  let ?sc = "TFloat [2, 1] [1 / 4, - (3 / 8)]"
  let ?cw = "TInt8 [2, 2] [4, - 8, - 8, 1]"
  have h: "(4 :: nat) = 4 \<or> (4 :: nat) = 8" by simp
  have w: "to_float32 (weight ?L) = TFloat [2, 2] [1, - 2, 3, - 1 / 2]" by code_simp
  have q: "quant_params (\<lambda>x. 0) 4 False (to_float32 (weight ?L)) [1] = Inr (?sc, None)"
    by code_simp
  have c: "compress_weight 4 False (to_float32 (weight ?L)) ?sc None = Inr ?cw"
    by code_simp
  note t = pack_range_error_unreachable [OF h, of "\<lambda>x. 0" ?L False False]
  from t have a: "nncf_compress_layer (\<lambda>x. 0) ?L 4 False False
      \<noteq> Inl (ValueError ''Tensor values are not in [-8, 7].'')"
    by blast
  from t q c have b: "\<not> is_floating_point ?cw \<and>
      (\<forall>v\<in>set (tvals ?cw).
         real_of_int (level_low 4 False) \<le> v \<and> v \<le> real_of_int (level_high 4 False))"
    by blast
  have "(- 8 :: real) \<in> set (tvals ?cw)" by simp
  with b have "real_of_int (level_low 4 False) \<le> - 8 \<and> (- 8 :: real) \<le> real_of_int (level_high 4 False)"
    by blast
  with a b c [unfolded w] show ?thesis by blast
qed

end
